theory Spec2Isabelle
  imports Main "HOL-Library.Word" "HOL-Library.Sublist" "HOL-Library.Char_ord"
    "HOL-Library.List_Lexorder" "HOL-Library.AList"
begin

section \<open>Strings and numbers of the Go standard library, as context.go uses them\<close>

text \<open>
  A Go string is a sequence of bytes; it is modelled as \<^typ>\<open>string\<close>, a list of
  8-bit characters. The delimiters of every pattern of context.go are ASCII, so the
  patterns are read byte by byte.
\<close>

abbreviation NL :: char where "NL \<equiv> CHR 0x0A"
abbreviation CR :: char where "CR \<equiv> CHR 0x0D"
abbreviation TAB :: char where "TAB \<equiv> CHR 0x09"
abbreviation SPC :: char where "SPC \<equiv> CHR '' ''"

text \<open>\<^verbatim>\<open>strings.HasPrefix\<close> and \<^verbatim>\<open>strings.HasSuffix\<close>.\<close>

definition HasPrefix :: "string \<Rightarrow> string \<Rightarrow> bool" where
  "HasPrefix s p = prefix p s"

definition HasSuffix :: "string \<Rightarrow> string \<Rightarrow> bool" where
  "HasSuffix s p = suffix p s"

text \<open>
  \<^verbatim>\<open>strings.Split(s, ", ")\<close>: the pieces of \<open>s\<close> between the non-overlapping
  occurrences of the separator, found from the left; \<open>acc\<close> is the current piece,
  reversed. The empty string gives one empty piece.
\<close>

fun split_comma :: "string \<Rightarrow> string \<Rightarrow> string list" where
  "split_comma acc [] = [rev acc]"
| "split_comma acc [c] = [rev (c # acc)]"
| "split_comma acc (c # d # cs) =
     (if c = CHR '','' \<and> d = SPC then rev acc # split_comma [] cs
      else split_comma (c # acc) (d # cs))"

definition Split_comma_space :: "string \<Rightarrow> string list" where
  "Split_comma_space s = split_comma [] s"

text \<open>\<^verbatim>\<open>strings.Replace(s, "\\", "/", -1)\<close>: every backslash becomes a slash.\<close>

definition Replace_backslash :: "string \<Rightarrow> string" where
  "Replace_backslash s = map (\<lambda>c. if c = CHR 0x5C then CHR ''/'' else c) s"

text \<open>\<^verbatim>\<open>strings.TrimLeft(s, "\t ")\<close>.\<close>

definition TrimLeft_ws :: "string \<Rightarrow> string" where
  "TrimLeft_ws s = dropWhile (\<lambda>c. c = TAB \<or> c = SPC) s"

text \<open>Character classes: \<open>[0-9]\<close>, \<open>[0-9a-f]\<close> and \<open>[ \t]\<close>.\<close>

definition is_digit :: "char \<Rightarrow> bool" where
  "is_digit c = (48 \<le> (of_char c :: int) \<and> (of_char c :: int) \<le> 57)"

definition is_lhex :: "char \<Rightarrow> bool" where
  "is_lhex c = (is_digit c \<or> (97 \<le> (of_char c :: int) \<and> (of_char c :: int) \<le> 102))"

definition is_blank :: "char \<Rightarrow> bool" where
  "is_blank c = (c = SPC \<or> c = TAB)"

text \<open>
  The digit loop of \<^verbatim>\<open>strconv.ParseUint\<close> for 64 bits. A letter stands for its
  value from 10 on, whatever its case; a digit not below the base is a syntax error; a
  value beyond \<open>2^64 - 1\<close> is a range error, reported as soon as it is reached. With
  base 0 (\<open>base0\<close>) underscores are skipped here and checked afterwards.
\<close>

datatype numres = Ok int | SyntaxErr | RangeErr

definition digit_val :: "char \<Rightarrow> int option" where
  "digit_val c =
     (let n = (of_char c :: int) in
      if 48 \<le> n \<and> n \<le> 57 then Some (n - 48)
      else if 97 \<le> n \<and> n \<le> 122 then Some (n - 87)
      else if 65 \<le> n \<and> n \<le> 90 then Some (n - 55)
      else None)"

definition maxUint64 :: int where
  "maxUint64 = 18446744073709551615"

fun parse_digits :: "int \<Rightarrow> bool \<Rightarrow> int \<Rightarrow> string \<Rightarrow> numres" where
  "parse_digits base base0 n [] = Ok n"
| "parse_digits base base0 n (c # cs) =
     (if c = CHR ''_'' \<and> base0 then parse_digits base base0 n cs
      else case digit_val c of
        None \<Rightarrow> SyntaxErr
      | Some d \<Rightarrow>
          if base \<le> d then SyntaxErr
          else if maxUint64 div base + 1 \<le> n then RangeErr
          else if maxUint64 < n * base + d then RangeErr
          else parse_digits base base0 (n * base + d) cs)"

text \<open>
  \<^verbatim>\<open>underscoreOK\<close> of strconv: underscores of a base-0 literal must separate digits
  (the base prefix counts as a digit). \<open>saw\<close> is the kind of the previous character.
\<close>

datatype saw = SawStart | SawDigit | SawUnderscore | SawOther

definition lower_is :: "char \<Rightarrow> char \<Rightarrow> bool" where
  \<comment> \<open>\<open>lower(c) == l\<close> for a lower-case letter \<open>l\<close>, where \<open>lower(c) = c | 0x20\<close>\<close>
  "lower_is c l = (c = l \<or> (of_char c :: int) + 32 = of_char l)"

fun underscore_loop :: "bool \<Rightarrow> saw \<Rightarrow> string \<Rightarrow> bool" where
  "underscore_loop hex sw [] = (sw \<noteq> SawUnderscore)"
| "underscore_loop hex sw (c # cs) =
     (if is_digit c \<or> (hex \<and> (case digit_val c of None \<Rightarrow> False | Some d \<Rightarrow> 10 \<le> d \<and> d \<le> 15))
      then underscore_loop hex SawDigit cs
      else if c = CHR ''_'' then (if sw \<noteq> SawDigit then False else underscore_loop hex SawUnderscore cs)
      else if sw = SawUnderscore then False
      else underscore_loop hex SawOther cs)"

definition underscoreOK :: "string \<Rightarrow> bool" where
  "underscoreOK s0 =
     (let s = (if s0 \<noteq> [] \<and> (hd s0 = CHR ''-'' \<or> hd s0 = CHR ''+'') then tl s0 else s0) in
      if 2 \<le> length s \<and> hd s = CHR ''0'' \<and>
         (lower_is (s ! 1) CHR ''b'' \<or> lower_is (s ! 1) CHR ''o'' \<or> lower_is (s ! 1) CHR ''x'')
      then underscore_loop (lower_is (s ! 1) CHR ''x'') SawDigit (drop 2 s)
      else underscore_loop False SawStart s)"

text \<open>
  \<^verbatim>\<open>strconv.ParseUint(s, 0, 64)\<close>: the base comes from the prefix (\<open>0b\<close>, \<open>0o\<close>,
  \<open>0x\<close>, a leading \<open>0\<close> for octal, else decimal). \<open>None\<close> is a non-nil error: the
  callers only test the error against nil.
\<close>

definition ParseUint0 :: "string \<Rightarrow> 64 word option" where
  "ParseUint0 s0 =
     (if s0 = [] then None
      else
        let (base, s) =
          (if hd s0 = CHR ''0'' then
             (if 3 \<le> length s0 \<and> lower_is (s0 ! 1) CHR ''b'' then (2, drop 2 s0)
              else if 3 \<le> length s0 \<and> lower_is (s0 ! 1) CHR ''o'' then (8, drop 2 s0)
              else if 3 \<le> length s0 \<and> lower_is (s0 ! 1) CHR ''x'' then (16, drop 2 s0)
              else (8, tl s0))
           else (10, s0))
        in case parse_digits base True 0 s of
             Ok n \<Rightarrow> if CHR ''_'' \<in> set s \<and> \<not> underscoreOK s0 then None else Some (word_of_int n)
           | _ \<Rightarrow> None)"

text \<open>
  \<^verbatim>\<open>strconv.Atoi\<close> with a 64-bit \<open>int\<close>: an optional sign, then decimal digits. The
  result is the value and whether the error is non-nil; on a range error the value is
  the nearest bound, on a syntax error it is 0.
\<close>

definition Atoi :: "string \<Rightarrow> int \<times> bool" where
  "Atoi s0 =
     (let neg = (s0 \<noteq> [] \<and> hd s0 = CHR ''-'');
          s = (if s0 \<noteq> [] \<and> (hd s0 = CHR ''-'' \<or> hd s0 = CHR ''+'') then tl s0 else s0)
      in if s = [] then (0, True)
         else case parse_digits 10 False 0 s of
           SyntaxErr \<Rightarrow> (0, True)
         | RangeErr \<Rightarrow> (if neg then - (2 ^ 63) else 2 ^ 63 - 1, True)
         | Ok un \<Rightarrow>
             if \<not> neg \<and> 2 ^ 63 \<le> un then (2 ^ 63 - 1, True)
             else if neg \<and> 2 ^ 63 < un then (- (2 ^ 63), True)
             else (if neg then - un else un, False))"

section \<open>The line patterns\<close>

text \<open>
  Go's regexp package finds the leftmost match and, among those, the one a backtracking
  search finds first; every pattern here is anchored at the start, and all but
  \<open>reUnavail\<close> at the end. A dot matches any byte but the newline, a negated class
  matches the newline too. Each recognizer returns the submatches the code reads.
\<close>

text \<open>
  \<open>reRoutineHeader\<close>: blanks (group 1), \<open>goroutine\<close>, a space, digits (group 2),
  a space, and between brackets one or more characters other than the closing bracket
  (group 3), then a colon and the end. No character after a group can belong to the
  group's class, so each group is the longest run.
\<close>

definition reRoutineHeader :: "string \<Rightarrow> (string \<times> string \<times> string) option" where
  "reRoutineHeader s =
     (let ind = takeWhile is_blank s; r1 = dropWhile is_blank s in
      if \<not> prefix ''goroutine '' r1 then None
      else
        let r2 = drop 10 r1; ds = takeWhile is_digit r2; r3 = dropWhile is_digit r2 in
        if ds = [] \<or> \<not> prefix '' ['' r3 then None
        else
          let r4 = drop 2 r3;
              body = takeWhile (\<lambda>c. c \<noteq> CHR '']'') r4;
              r5 = dropWhile (\<lambda>c. c \<noteq> CHR '']'') r4
          in if body = [] \<or> r5 \<noteq> '']:'' then None else Some (ind, ds, body))"

text \<open>\<open>reMinutes\<close>: digits (group 1), then \<open> minutes\<close> and the end.\<close>

definition reMinutes :: "string \<Rightarrow> string option" where
  "reMinutes s =
     (let ds = takeWhile is_digit s in
      if ds \<noteq> [] \<and> dropWhile is_digit s = '' minutes'' then Some ds else None)"

text \<open>
  \<open>reUnavail\<close>: a tab or one or more spaces, then the fixed text; anything may follow.
\<close>

definition unavail_text :: string where
  "unavail_text = ''goroutine running on other thread; stack unavailable''"

definition reUnavail :: "string \<Rightarrow> bool" where
  "reUnavail s =
     (case s of
        [] \<Rightarrow> False
      | c # cs \<Rightarrow>
          if c = TAB then prefix unavail_text cs
          else if c = SPC then prefix unavail_text (dropWhile (\<lambda>c. c = SPC) cs)
          else False)"

text \<open>\<open>reCreated\<close>: \<open>created by\<close>, a space, then one or more bytes (group 1), no newline.\<close>

definition reCreated :: "string \<Rightarrow> string option" where
  "reCreated s =
     (if prefix ''created by '' s \<and> drop 11 s \<noteq> [] \<and> NL \<notin> set (drop 11 s)
      then Some (drop 11 s) else None)"

text \<open>
  \<open>reFunc\<close>: one or more bytes (group 1), an opening parenthesis, any bytes (group 2), a
  closing parenthesis and the end; no newline anywhere. Group 1 is greedy, so the
  parenthesis that opens group 2 is the last one before the final character.
\<close>

definition reFunc :: "string \<Rightarrow> (string \<times> string) option" where
  "reFunc s =
     (if s = [] \<or> last s \<noteq> CHR '')'' \<or> NL \<in> set s then None
      else
        let r = rev (butlast s);
            args = rev (takeWhile (\<lambda>c. c \<noteq> CHR ''('') r);
            rest = dropWhile (\<lambda>c. c \<noteq> CHR ''('') r
        in if rest = [] \<or> tl rest = [] then None else Some (rev (tl rest), args))"

text \<open>
  \<open>reFile\<close>: a tab or one or more spaces; the path (group 1), which is \<open>??\<close>,
  \<open><autogenerated>\<close>, or one or more bytes followed by \<open>.c\<close>, \<open>.go\<close> or \<open>.s\<close>; a
  colon; digits (group 2); then optionally \<open> +0x\<close> and hex digits, and optionally
  \<open> fp=0x\<close>, hex digits, \<open> sp=0x\<close>, hex digits and optionally \<open> pc=0x\<close> and hex digits.

  Nothing after the path's colon contains a colon, so that colon is the last one of the
  line. Before it, the spaces are greedy: the path starts after all of them, unless what
  follows them is only an extension, in which case one space is given back to the path.
\<close>

definition hex_field :: "string \<Rightarrow> string \<Rightarrow> string option" where
  \<comment> \<open>the text \<open>lit\<close>, then one or more hex digits; returns what follows\<close>
  "hex_field lit s =
     (if prefix lit s \<and> takeWhile is_lhex (drop (length lit) s) \<noteq> []
      then Some (dropWhile is_lhex (drop (length lit) s)) else None)"

definition frame_tail :: "string \<Rightarrow> bool" where
  "frame_tail s =
     (s = [] \<or>
      (case hex_field '' fp=0x'' s of
         None \<Rightarrow> False
       | Some s1 \<Rightarrow>
           (case hex_field '' sp=0x'' s1 of
              None \<Rightarrow> False
            | Some s2 \<Rightarrow> s2 = [] \<or> hex_field '' pc=0x'' s2 = Some [])))"

definition file_tail :: "string \<Rightarrow> bool" where
  "file_tail s =
     (frame_tail s \<or> (case hex_field '' +0x'' s of None \<Rightarrow> False | Some s1 \<Rightarrow> frame_tail s1))"

definition has_ext :: "string \<Rightarrow> bool" where
  \<comment> \<open>one or more bytes other than the newline, then \<open>.c\<close>, \<open>.go\<close> or \<open>.s\<close>\<close>
  "has_ext g =
     (NL \<notin> set g \<and>
      ((suffix ''.c'' g \<and> 2 < length g) \<or> (suffix ''.go'' g \<and> 3 < length g) \<or>
       (suffix ''.s'' g \<and> 2 < length g)))"

definition file_path :: "string \<Rightarrow> bool" where
  "file_path g = (g = ''??'' \<or> g = ''<autogenerated>'' \<or> has_ext g)"

definition reFile :: "string \<Rightarrow> (string \<times> string) option" where
  "reFile s =
     (let post = rev (takeWhile (\<lambda>c. c \<noteq> CHR '':'') (rev s));
          pre = rev (drop 1 (dropWhile (\<lambda>c. c \<noteq> CHR '':'') (rev s)));
          ds = takeWhile is_digit post
      in if CHR '':'' \<notin> set s \<or> ds = [] \<or> \<not> file_tail (dropWhile is_digit post) then None
         else case pre of
           [] \<Rightarrow> None
         | c # cs \<Rightarrow>
             if c = TAB then (if file_path cs then Some (cs, ds) else None)
             else if c = SPC then
               (let g = dropWhile (\<lambda>c. c = SPC) cs in
                if file_path g then Some (g, ds)
                else if cs \<noteq> g \<and> has_ext (SPC # g) then Some (SPC # g, ds)
                else None)
             else None)"

section \<open>The data model\<close>

text \<open>
  Modelled from the spec: the declarations of \<open>Goroutine\<close>, \<open>Signature\<close>, \<open>Stack\<close>,
  \<open>Call\<close>, \<open>Func\<close>, \<open>Args\<close> and \<open>Arg\<close> are not in context.go. The records have
  the fields context.go reads and writes, typed as the spec's data model says; a value
  built by \<open>Call{}\<close> or left out of a composite literal is the zero value.
\<close>

record Arg =
  Value :: "64 word"

record Args =
  Values :: "Arg list"
  Args_Elided :: bool

record Func =
  Raw :: string

record Call =
  SrcPath :: string
  Line :: int
  Call_Func :: Func
  Call_Args :: Args

record Stack =
  Calls :: "Call list"
  Stack_Elided :: bool

record Signature =
  State :: string
  SleepMin :: int
  SleepMax :: int
  Locked :: bool

record Goroutine =
  Sig :: Signature
  ID :: int
  First :: bool
  Stack :: Stack
  CreatedBy :: Call

definition zero_Call :: Call where
  "zero_Call = \<lparr>SrcPath = [], Line = 0, Call_Func = \<lparr>Raw = []\<rparr>,
                 Call_Args = \<lparr>Values = [], Args_Elided = False\<rparr>\<rparr>"

definition zero_Stack :: Stack where
  "zero_Stack = \<lparr>Calls = [], Stack_Elided = False\<rparr>"

text \<open>
  The errors \<open>scan\<close> builds with \<open>fmt.Errorf\<close>, one constructor per message, carrying
  the line the message quotes (before \<open>strings.TrimSpace\<close> and quoting, which only
  shape the text). \<open>StreamError\<close> is an error of the reader, kept by the scanner;
  \<open>ErrTooLong\<close> and \<open>ErrNoProgress\<close> are the scanner's own.
\<close>

datatype error =
    InconsistentIndentation string string
  | ExpectedFunctionAfterHeader string
  | ExpectedFileAfterFunction string
  | ExpectedFileAfterCreated string
  | ExpectedEmptyAfterUnavailable string
  | FailedToParseInt string
  | FailedToParseAddress string
  | FailedToParseGoroutineID string
  | ExpectedFunctionAfterRaceOperation string
  | ExpectedFileAfterRaceFunction string
  | ExpectedEmptyAfterRaceFile string
  | ExpectedFunctionOrEndAfterRaceFile string
  | ExpectedOperatorOrGoroutine string
  | InternalError
  | ErrTooLong
  | ErrNoProgress
  | StreamError nat

section \<open>parseFunc and parseFile\<close>

text \<open>
  The loop of \<open>parseFunc\<close> over the pieces of the argument list: \<open>...\<close> sets
  \<open>Elided\<close>, an empty piece ends the loop, anything else must parse as a number.
  The call is updated in place, so on an error the values read so far stay in it.
\<close>

fun parseArgs :: "string \<Rightarrow> Call \<Rightarrow> string list \<Rightarrow> error option \<times> Call" where
  "parseArgs line c [] = (None, c)"
| "parseArgs line c (a # as) =
     (if a = ''...'' then
        parseArgs line (c\<lparr>Call_Args := (Call_Args c)\<lparr>Args_Elided := True\<rparr>\<rparr>) as
      else if a = [] then (None, c)
      else case ParseUint0 a of
        None \<Rightarrow> (Some (FailedToParseInt line), c)
      | Some v \<Rightarrow>
          parseArgs line
            (c\<lparr>Call_Args := (Call_Args c)\<lparr>Values := Values (Call_Args c) @ [\<lparr>Value = v\<rparr>]\<rparr>\<rparr>) as)"

text \<open>\<open>parseFunc\<close> returns whether the line is a function call, the error, and the call.\<close>

definition parseFunc :: "Call \<Rightarrow> string \<Rightarrow> bool \<times> error option \<times> Call" where
  "parseFunc c line =
     (case reFunc line of
        None \<Rightarrow> (False, None, c)
      | Some (name, args) \<Rightarrow>
          (case parseArgs line (c\<lparr>Call_Func := (Call_Func c)\<lparr>Raw := name\<rparr>\<rparr>) (Split_comma_space args) of
             (err, c') \<Rightarrow> (True, err, c')))"

definition parseFile :: "Call \<Rightarrow> string \<Rightarrow> bool \<times> error option \<times> Call" where
  "parseFile c line =
     (case reFile line of
        None \<Rightarrow> (False, None, c)
      | Some (path, num) \<Rightarrow>
          (case Atoi num of
             (n, True) \<Rightarrow> (True, Some (FailedToParseInt line), c)
           | (n, False) \<Rightarrow> (True, None, c\<lparr>SrcPath := path, Line := n\<rparr>)))"

section \<open>The patterns of the race detector's report\<close>

text \<open>
  \<open>reRaceOperationHeader\<close> and \<open>reRacePreviousOperationHeader\<close>: the operation
  (group 1), \<open> at \<close>, the address \<open>0x\<close> and hex digits (group 2), \<open> by goroutine \<close>,
  digits (group 3), a colon and the end.
\<close>

definition race_operation_rest :: "string \<Rightarrow> (string \<times> string) option" where
  "race_operation_rest s =
     (if \<not> prefix '' at 0x'' s then None
      else
        let r = drop 6 s; hx = takeWhile is_lhex r; r2 = dropWhile is_lhex r in
        if hx = [] \<or> \<not> prefix '' by goroutine '' r2 then None
        else
          let r3 = drop 14 r2; ds = takeWhile is_digit r3 in
          if ds = [] \<or> dropWhile is_digit r3 \<noteq> '':'' then None else Some (''0x'' @ hx, ds))"

definition reRaceOperationHeader :: "string \<Rightarrow> (string \<times> string \<times> string) option" where
  "reRaceOperationHeader s =
     (if prefix ''Read'' s then map_option (Pair ''Read'') (race_operation_rest (drop 4 s))
      else if prefix ''Write'' s then map_option (Pair ''Write'') (race_operation_rest (drop 5 s))
      else None)"

definition reRacePreviousOperationHeader :: "string \<Rightarrow> (string \<times> string \<times> string) option" where
  "reRacePreviousOperationHeader s =
     (if prefix ''Previous read'' s then map_option (Pair ''read'') (race_operation_rest (drop 13 s))
      else if prefix ''Previous write'' s then map_option (Pair ''write'') (race_operation_rest (drop 14 s))
      else None)"

text \<open>
  \<open>reRaceGoroutine\<close>: \<open>Goroutine\<close>, a space, digits (group 1), \<open>running\<close> or
  \<open>finished\<close> between parentheses (group 2), then \<open> created at:\<close> and the end.
\<close>

definition reRaceGoroutine :: "string \<Rightarrow> (string \<times> string) option" where
  "reRaceGoroutine s =
     (if \<not> prefix ''Goroutine '' s then None
      else
        let r = drop 10 s; ds = takeWhile is_digit r; r2 = dropWhile is_digit r in
        if ds = [] then None
        else if r2 = '' (running) created at:'' then Some (ds, ''running'')
        else if r2 = '' (finished) created at:'' then Some (ds, ''finished'')
        else None)"

section \<open>The scanning state\<close>

datatype state =
    normal
  | betweenRoutine
  | gotRoutineHeader
  | gotFunc
  | gotCreated
  | gotFileFunc
  | gotFileCreated
  | gotUnavail
  | gotRaceHeader1
  | gotRaceHeader
  | gotRaceOperationHeader
  | gotRaceOperationFunc
  | gotRaceOperationFile
  | gotRaceGoroutineHeader
  | gotRaceGoroutineFunc
  | gotRaceGoroutineFile
  | betweenRaces

record raceOp =
  race_write :: bool
  race_addr :: "64 word"
  race_id :: int

text \<open>
  \<open>goroutines\<close> is a slice of pointers in the source, and \<open>cur\<close> points to its last
  element: an update through \<open>cur\<close> is an update of the last element of the list. The
  field \<open>prefix\<close> is named \<open>prefix_str\<close> here.
\<close>

record scanningState =
  raceDetectionEnabled :: bool
  goroutines :: "Goroutine list"
  state :: state
  prefix_str :: string
  races :: "raceOp list"

definition lockedToThread :: string where
  "lockedToThread = ''locked to thread''"

definition elided :: string where
  "elided = ''...additional frames elided...''"

definition raceHeaderFooter :: string where
  "raceHeaderFooter = ''==================''"

definition raceHeader :: string where
  "raceHeader = ''WARNING: DATA RACE''"

definition unavailable_Call :: Call where
  "unavailable_Call = zero_Call\<lparr>SrcPath := ''<unavailable>''\<rparr>"

text \<open>The line without its end-of-line, \<open>trimmed\<close> in the source.\<close>

definition chomp :: "string \<Rightarrow> string" where
  "chomp line =
     (if HasSuffix line [CR, NL] then take (length line - 2) line
      else if HasSuffix line [NL] then take (length line - 1) line
      else line)"

text \<open>
  \<open>cur\<close> is nil when no goroutine was found yet; a use of it then is a run-time panic,
  as is an index into an empty \<open>Calls\<close>. A panic is the result \<open>None\<close>.
\<close>

definition cur :: "scanningState \<Rightarrow> Goroutine option" where
  "cur s = (if goroutines s = [] then None else Some (last (goroutines s)))"

definition set_cur :: "scanningState \<Rightarrow> Goroutine \<Rightarrow> scanningState" where
  "set_cur s g = s\<lparr>goroutines := butlast (goroutines s) @ [g]\<rparr>"

definition add_call :: "Goroutine \<Rightarrow> Call \<Rightarrow> Goroutine" where
  "add_call g c = g\<lparr>Stack := (Stack g)\<lparr>Calls := Calls (Stack g) @ [c]\<rparr>\<rparr>"

definition set_last_call :: "Goroutine \<Rightarrow> Call \<Rightarrow> Goroutine" where
  "set_last_call g c = g\<lparr>Stack := (Stack g)\<lparr>Calls := butlast (Calls (Stack g)) @ [c]\<rparr>\<rparr>"

definition set_created_raw :: "Goroutine \<Rightarrow> string \<Rightarrow> Goroutine" where
  "set_created_raw g r = g\<lparr>CreatedBy := (CreatedBy g)\<lparr>Call_Func := (Call_Func (CreatedBy g))\<lparr>Raw := r\<rparr>\<rparr>\<rparr>"

text \<open>
  The loop over the items after the first of a header's bracket: \<open>locked to thread\<close>
  sets \<open>locked\<close>, a duration sets \<open>sleep\<close> (the error of \<open>Atoi\<close> is ignored there).
\<close>

fun header_items :: "int \<times> bool \<Rightarrow> string list \<Rightarrow> int \<times> bool" where
  "header_items (sleep, locked) [] = (sleep, locked)"
| "header_items (sleep, locked) (it # its) =
     (if it = lockedToThread then header_items (sleep, True) its
      else case reMinutes it of
        Some m \<Rightarrow> header_items (fst (Atoi m), locked) its
      | None \<Rightarrow> header_items (sleep, locked) its)"

definition new_goroutine :: "scanningState \<Rightarrow> int \<Rightarrow> string \<Rightarrow> Goroutine" where
  "new_goroutine s n body =
     (let items = Split_comma_space body;
          (sleep, locked) = header_items (0, False) (tl items)
      in \<lparr>Sig = \<lparr>State = hd items, SleepMin = sleep, SleepMax = sleep, Locked = locked\<rparr>,
          ID = n, First = (goroutines s = []), Stack = zero_Stack, CreatedBy = zero_Call\<rparr>)"

type_synonym scan_result = "(string \<times> error option \<times> scanningState) option"

text \<open>The end of the cases \<open>normal\<close> and \<open>betweenRoutine\<close>, when no header was found.\<close>

definition scan_no_header :: "scanningState \<Rightarrow> string \<Rightarrow> string \<Rightarrow> scan_result" where
  "scan_no_header s line trimmed =
     (if raceDetectionEnabled s \<and> trimmed = raceHeaderFooter
      then Some ([], None, s\<lparr>state := gotRaceHeader1\<rparr>)
      else Some (line, None, s\<lparr>state := normal, prefix_str := []\<rparr>))"

definition scan_header :: "scanningState \<Rightarrow> string \<Rightarrow> string \<Rightarrow> scan_result" where
  "scan_header s line trimmed =
     (case reRoutineHeader trimmed of
        None \<Rightarrow> scan_no_header s line trimmed
      | Some (ind, num, body) \<Rightarrow>
          (case Atoi num of
             (n, True) \<Rightarrow> scan_no_header s line trimmed
           | (n, False) \<Rightarrow>
               Some ([], None,
                 s\<lparr>goroutines := goroutines s @ [new_goroutine s n body],
                   state := gotRoutineHeader, prefix_str := ind\<rparr>)))"

text \<open>
  The function-call line of the cases \<open>gotRoutineHeader\<close>, \<open>gotFileFunc\<close> and
  \<open>gotRaceGoroutineHeader\<close>: when \<open>parseFunc\<close> finds a call it is appended, also
  when its arguments fail to parse; \<open>otherwise\<close> is what the case does when it finds none.
\<close>

definition scan_func :: "scanningState \<Rightarrow> string \<Rightarrow> state \<Rightarrow> scan_result \<Rightarrow> scan_result" where
  "scan_func s text next otherwise =
     (case parseFunc zero_Call text of
        (True, err, c) \<Rightarrow>
          (case cur s of
             None \<Rightarrow> None
           | Some g \<Rightarrow> Some ([], err, (set_cur s (add_call g c))\<lparr>state := next\<rparr>))
      | (False, err, c) \<Rightarrow> otherwise)"

text \<open>
  The file line of the cases \<open>gotFunc\<close> and \<open>gotRaceGoroutineFunc\<close>, parsed into the
  last call of the current goroutine.
\<close>

definition scan_file_last :: "scanningState \<Rightarrow> string \<Rightarrow> state \<Rightarrow> error \<Rightarrow> scan_result" where
  "scan_file_last s trimmed next notfound =
     (case cur s of
        None \<Rightarrow> None
      | Some g \<Rightarrow>
          if Calls (Stack g) = [] then None
          else
            (case parseFile (last (Calls (Stack g))) trimmed of
               (found, Some e, c) \<Rightarrow> Some ([], Some e, set_cur s (set_last_call g c))
             | (False, None, c) \<Rightarrow> Some ([], Some notfound, set_cur s (set_last_call g c))
             | (True, None, c) \<Rightarrow> Some ([], None, (set_cur s (set_last_call g c))\<lparr>state := next\<rparr>)))"

text \<open>The header of a race operation, in the cases \<open>gotRaceHeader\<close> and \<open>betweenRaces\<close>.\<close>

definition scan_race_op :: "scanningState \<Rightarrow> string \<Rightarrow> bool \<Rightarrow> string \<Rightarrow> string \<Rightarrow> scan_result" where
  "scan_race_op s trimmed w a num =
     (case ParseUint0 a of
        None \<Rightarrow> Some ([], Some (FailedToParseAddress trimmed), s)
      | Some address \<Rightarrow>
          (case Atoi num of
             (n, True) \<Rightarrow> Some ([], Some (FailedToParseGoroutineID trimmed), s)
           | (n, False) \<Rightarrow>
               Some ([], None,
                 s\<lparr>races := races s @ [\<lparr>race_write = w, race_addr = address, race_id = n\<rparr>],
                   state := gotRaceOperationHeader\<rparr>)))"

section \<open>scan\<close>

text \<open>
  The \<open>switch\<close> of \<open>scan\<close> on the state, after the end-of-line and the indentation
  were taken off \<open>trimmed\<close>. The result is the text to pass through, the error, and the
  state after the line. The source's \<open>default\<close> case is for a state outside the
  seventeen constants, which the type excludes.
\<close>

definition scan_state :: "scanningState \<Rightarrow> string \<Rightarrow> string \<Rightarrow> scan_result" where
  "scan_state s line trimmed =
     (case state s of
        normal \<Rightarrow> scan_header s line trimmed
      | betweenRoutine \<Rightarrow> scan_header s line trimmed
      | gotRoutineHeader \<Rightarrow>
          if reUnavail trimmed then
            (case cur s of
               None \<Rightarrow> None
             | Some g \<Rightarrow>
                 Some ([], None,
                   (set_cur s (g\<lparr>Stack := (Stack g)\<lparr>Calls := [unavailable_Call]\<rparr>\<rparr>))\<lparr>state := gotUnavail\<rparr>))
          else scan_func s trimmed gotFunc (Some ([], Some (ExpectedFunctionAfterHeader trimmed), s))
      | gotFunc \<Rightarrow> scan_file_last s trimmed gotFileFunc (ExpectedFileAfterFunction trimmed)
      | gotCreated \<Rightarrow>
          (case cur s of
             None \<Rightarrow> None
           | Some g \<Rightarrow>
               (case parseFile (CreatedBy g) trimmed of
                  (found, Some e, c) \<Rightarrow> Some ([], Some e, set_cur s (g\<lparr>CreatedBy := c\<rparr>))
                | (False, None, c) \<Rightarrow>
                    Some ([], Some (ExpectedFileAfterCreated trimmed), set_cur s (g\<lparr>CreatedBy := c\<rparr>))
                | (True, None, c) \<Rightarrow>
                    Some ([], None, (set_cur s (g\<lparr>CreatedBy := c\<rparr>))\<lparr>state := gotFileCreated\<rparr>)))
      | gotFileFunc \<Rightarrow>
          (case reCreated trimmed of
             Some r \<Rightarrow>
               (case cur s of
                  None \<Rightarrow> None
                | Some g \<Rightarrow> Some ([], None, (set_cur s (set_created_raw g r))\<lparr>state := gotCreated\<rparr>))
           | None \<Rightarrow>
               if elided = trimmed then
                 (case cur s of
                    None \<Rightarrow> None
                  | Some g \<Rightarrow>
                      Some ([], None, set_cur s (g\<lparr>Stack := (Stack g)\<lparr>Stack_Elided := True\<rparr>\<rparr>)))
               else
                 scan_func s trimmed gotFunc
                   (if trimmed = [] then Some ([], None, s\<lparr>state := betweenRoutine\<rparr>)
                    else Some (line, None, s\<lparr>state := normal, prefix_str := []\<rparr>)))
      | gotFileCreated \<Rightarrow>
          if trimmed = [] then Some ([], None, s\<lparr>state := betweenRoutine\<rparr>)
          else Some (line, None, s\<lparr>state := normal, prefix_str := []\<rparr>)
      | gotUnavail \<Rightarrow>
          if trimmed = [] then Some ([], None, s\<lparr>state := betweenRoutine\<rparr>)
          else
            (case reCreated trimmed of
               Some r \<Rightarrow>
                 (case cur s of
                    None \<Rightarrow> None
                  | Some g \<Rightarrow> Some ([], None, (set_cur s (set_created_raw g r))\<lparr>state := gotCreated\<rparr>))
             | None \<Rightarrow> Some ([], Some (ExpectedEmptyAfterUnavailable trimmed), s))
      | gotRaceHeader1 \<Rightarrow>
          if raceHeader = trimmed then Some ([], None, s\<lparr>state := gotRaceHeader\<rparr>)
          else Some (line, None, s\<lparr>state := normal\<rparr>)
      | gotRaceHeader \<Rightarrow>
          (case reRaceOperationHeader trimmed of
             Some (k, a, num) \<Rightarrow> scan_race_op s trimmed (k = ''Write'') a num
           | None \<Rightarrow> Some (line, None, s\<lparr>state := normal\<rparr>))
      | gotRaceOperationHeader \<Rightarrow>
          (case parseFunc zero_Call trimmed of
             (True, err, c) \<Rightarrow> Some ([], err, s\<lparr>state := gotRaceOperationFunc\<rparr>)
           | (False, err, c) \<Rightarrow> Some ([], Some (ExpectedFunctionAfterRaceOperation trimmed), s))
      | gotRaceGoroutineHeader \<Rightarrow>
          scan_func s (TrimLeft_ws trimmed) gotRaceGoroutineFunc
            (Some ([], Some (ExpectedFunctionAfterRaceOperation trimmed), s))
      | gotRaceOperationFunc \<Rightarrow>
          (case parseFile zero_Call trimmed of
             (found, Some e, c) \<Rightarrow> Some ([], Some e, s)
           | (False, None, c) \<Rightarrow> Some ([], Some (ExpectedFileAfterRaceFunction trimmed), s)
           | (True, None, c) \<Rightarrow> Some ([], None, s\<lparr>state := gotRaceOperationFile\<rparr>))
      | gotRaceGoroutineFunc \<Rightarrow>
          scan_file_last s trimmed gotRaceGoroutineFile (ExpectedFileAfterRaceFunction trimmed)
      | gotRaceOperationFile \<Rightarrow>
          if trimmed = [] then Some ([], None, s\<lparr>state := betweenRaces\<rparr>)
          else Some ([], Some (ExpectedEmptyAfterRaceFile trimmed), s)
      | gotRaceGoroutineFile \<Rightarrow>
          if trimmed = [] then Some ([], None, s\<lparr>state := betweenRaces\<rparr>)
          else if trimmed = raceHeaderFooter then Some ([], None, s\<lparr>state := normal\<rparr>)
          else
            (case parseFunc zero_Call (TrimLeft_ws trimmed) of
               (True, err, c) \<Rightarrow> Some ([], err, s\<lparr>state := gotRaceGoroutineFunc\<rparr>)
             | (False, err, c) \<Rightarrow> Some ([], Some (ExpectedFunctionOrEndAfterRaceFile trimmed), s))
      | betweenRaces \<Rightarrow>
          (case reRacePreviousOperationHeader trimmed of
             Some (k, a, num) \<Rightarrow> scan_race_op s trimmed (k = ''write'') a num
           | None \<Rightarrow>
               (case reRaceGoroutine trimmed of
                  Some (num, st) \<Rightarrow>
                    (case Atoi num of
                       (n, True) \<Rightarrow> Some ([], Some (FailedToParseGoroutineID trimmed), s)
                     | (n, False) \<Rightarrow>
                         Some ([], None,
                           s\<lparr>goroutines := goroutines s @
                                [\<lparr>Sig = \<lparr>State = st, SleepMin = 0, SleepMax = 0, Locked = False\<rparr>,
                                  ID = n, First = (goroutines s = []), Stack = zero_Stack,
                                  CreatedBy = zero_Call\<rparr>],
                             state := gotRaceGoroutineHeader\<rparr>))
                | None \<Rightarrow> Some ([], Some (ExpectedOperatorOrGoroutine trimmed), s))))"

text \<open>
  \<open>scan\<close>: a line without end-of-line goes through untouched in the state \<open>normal\<close>;
  otherwise a non-empty line must start with the block's indentation, which is taken off.
\<close>

definition scan :: "scanningState \<Rightarrow> string \<Rightarrow> scan_result" where
  "scan s line =
     (if \<not> HasSuffix line [NL] \<and> state s = normal then Some (line, None, s)
      else
        let trimmed = chomp line in
        if trimmed \<noteq> [] \<and> prefix_str s \<noteq> [] then
          (if \<not> HasPrefix trimmed (prefix_str s)
           then Some ([], Some (InconsistentIndentation trimmed (prefix_str s)),
                      s\<lparr>state := normal, prefix_str := []\<rparr>)
           else scan_state s line (drop (length (prefix_str s)) trimmed))
        else scan_state s line trimmed)"

text \<open>
  What \<open>scan\<close> hands to its switch, and the test it makes of the indentation before:
  \<open>stripped s line\<close> is \<open>trimmed\<close> once the end-of-line and the indentation of the
  block are taken off; \<open>indented s line\<close> holds when the line is empty, or no indentation
  is set, or the line starts with it.
\<close>

definition stripped :: "scanningState \<Rightarrow> string \<Rightarrow> string" where
  "stripped s line =
     (if chomp line \<noteq> [] \<and> prefix_str s \<noteq> [] then drop (length (prefix_str s)) (chomp line)
      else chomp line)"

definition indented :: "scanningState \<Rightarrow> string \<Rightarrow> bool" where
  "indented s line = (chomp line = [] \<or> prefix_str s = [] \<or> HasPrefix (chomp line) (prefix_str s))"


section \<open>The line scanner and parseDump\<close>

definition MaxScanTokenSize :: nat where
  "MaxScanTokenSize = 65536"

text \<open>\<open>scanLines\<close>: how far to advance, the token (or nil), the error.\<close>

definition scanLines :: "string \<Rightarrow> bool \<Rightarrow> nat \<times> string option \<times> error option" where
  "scanLines data atEOF =
     (if atEOF \<and> data = [] then (0, None, None)
      else if NL \<in> set data then
        (let i = length (takeWhile (\<lambda>c. c \<noteq> NL) data) in (i + 1, Some (take (i + 1) data), None))
      else if atEOF then (length data, Some data, None)
      else if MaxScanTokenSize \<le> length data then (length data, Some data, None)
      else (0, None, None))"

text \<open>
  \<open>bufio.Scanner\<close> with this split function, over the bytes \<open>rest\<close> still to come
  from the reader. The scanner calls the split function on a growing buffer until it
  gives a token; the buffer holds at most \<open>MaxScanTokenSize\<close> bytes, and \<open>atEOF\<close>
  holds once the reader is exhausted. \<open>scanLines\<close> asks for more data exactly while
  the buffer has no newline, is not full and the reader is not exhausted, so the call that
  decides is the one on the full buffer or on all that is left. No token from a full buffer
  is \<open>ErrTooLong\<close>; a token without progress is refused by the scanner. The result is
  the tokens and the scanner's own error.
\<close>

function scanner_run :: "string \<Rightarrow> string list \<times> error option" where
  "scanner_run rest =
     (if rest = [] then ([], None)
      else
        (case scanLines (take MaxScanTokenSize rest) (length rest \<le> MaxScanTokenSize) of
           (adv, tok, Some e) \<Rightarrow> ([], Some e)
         | (adv, None, None) \<Rightarrow>
             ([], if length rest \<le> MaxScanTokenSize then None else Some ErrTooLong)
         | (adv, Some tok, None) \<Rightarrow>
             if adv = 0 then ([tok], Some ErrNoProgress)
             else (case scanner_run (drop adv rest) of (toks, e) \<Rightarrow> (tok # toks, e))))"
  by pat_completeness auto
termination
  by (relation "measure length") auto

declare scanner_run.simps [simp del]

text \<open>
  The loop of \<open>parseDump\<close> over the scanner's tokens: each line is scanned, what
  \<open>scan\<close> returns is written to \<open>out\<close>, and the first error ends the loop. \<open>out\<close> is
  what was written so far. The result is what was written, the error, and the scanning
  state \<open>s\<close> when the loop ends.
\<close>

fun parseDump_loop ::
  "scanningState \<Rightarrow> string list \<Rightarrow> string \<Rightarrow> (string \<times> error option \<times> scanningState) option" where
  "parseDump_loop s [] out = Some (out, None, s)"
| "parseDump_loop s (l # ls) out =
     (case scan s l of
        None \<Rightarrow> None
      | Some (line, err, s') \<Rightarrow>
          (let out' = (if line \<noteq> [] then out @ line else out) in
           case err of
             Some e \<Rightarrow> Some (out', Some e, s')
           | None \<Rightarrow> parseDump_loop s' ls out'))"

definition initial_state :: scanningState where
  "initial_state =
     \<lparr>raceDetectionEnabled = False, goroutines = [], state = normal, prefix_str = [], races = []\<rparr>"

text \<open>
  \<open>parseDump\<close> on a reader that gives the bytes \<open>data\<close> and then ends, with the error
  \<open>rerr\<close> if it has one. When the loop ends without an error of \<open>scan\<close>, the error is
  \<open>scanner.Err()\<close>: the scanner's own error, or the reader's.
\<close>

definition parseDump :: "string \<Rightarrow> nat option \<Rightarrow> (string \<times> Goroutine list \<times> error option) option" where
  "parseDump data rerr =
     (case scanner_run data of
        (toks, serr) \<Rightarrow>
          (case parseDump_loop initial_state toks [] of
             None \<Rightarrow> None
           | Some (out, Some e, s) \<Rightarrow> Some (out, goroutines s, Some e)
           | Some (out, None, s) \<Rightarrow>
               Some (out, goroutines s,
                     case serr of Some e \<Rightarrow> Some e | None \<Rightarrow> map_option StreamError rerr)))"

section \<open>The roots of the source files\<close>

text \<open>
  \<open>GOPATHs\<close> is a Go map, read only by key and through \<open>hasSrcPrefix\<close>, which asks
  whether some key has a property: it is an association list whose order means nothing.
\<close>

record Context =
  Goroutines :: "Goroutine list"
  GOROOT :: string
  GOPATHs :: "(string \<times> string) list"
  localgoroot :: string
  localgopaths :: "string list"

definition hasSrcPrefix :: "string \<Rightarrow> (string \<times> string) list \<Rightarrow> bool" where
  "hasSrcPrefix p m =
     list_ex (\<lambda>pre. HasPrefix p (pre @ ''/src/'') \<or> HasPrefix p (pre @ ''/pkg/mod/'')) (map fst m)"

text \<open>\<open>getFiles\<close>: the source paths of all calls, without duplicates, in byte order.\<close>

definition getFiles :: "Goroutine list \<Rightarrow> string list" where
  "getFiles gs = sort (remdups (concat (map (\<lambda>g. map SrcPath (Calls (Stack g))) gs)))"

text \<open>
  \<open>splitPath\<close>: \<open>out\<close> is the components found, \<open>s\<close> the one being read. A slash is
  kept while no component is out and \<open>s\<close> holds slashes only, so the slashes that start
  the path stay in the first component. (The source walks the runes of the path and
  appends each; for a path in UTF-8 these are its bytes.)
\<close>

fun splitPath_loop :: "string list \<Rightarrow> string \<Rightarrow> string \<Rightarrow> string list" where
  "splitPath_loop out s [] = (if s \<noteq> [] then out @ [s] else out)"
| "splitPath_loop out s (c # cs) =
     (if c \<noteq> CHR ''/'' \<or> (out = [] \<and> length (filter (\<lambda>x. x = CHR ''/'') s) = length s)
      then splitPath_loop out (s @ [c]) cs
      else if s \<noteq> [] then splitPath_loop (out @ [s]) [] cs
      else splitPath_loop out s cs)"

definition splitPath :: "string \<Rightarrow> string list" where
  "splitPath p = (if p = [] then [] else splitPath_loop [] [] p)"

text \<open>
  Modelled from the spec: \<open>pathJoin\<close> is declared in another file of the repository.
  The spec joins the components of a path, whose separator is the slash, under a
  directory: the components with a slash between them.
\<close>

fun pathJoin :: "string list \<Rightarrow> string" where
  "pathJoin [] = []"
| "pathJoin [x] = x"
| "pathJoin (x # y # ys) = x @ ''/'' @ pathJoin (y # ys)"

text \<open>
  \<open>rootedIn\<close>: the first \<open>i\<close> from 1 up to the number of parts, excluded, for which
  the parts from \<open>i\<close> on name a file under \<open>root\<close> gives the parts before \<open>i\<close>; the
  empty string when there is none. \<open>isFile\<close> is the file system: whether a path names
  something that exists and is not a directory.
\<close>

definition rootedIn :: "(string \<Rightarrow> bool) \<Rightarrow> string \<Rightarrow> string list \<Rightarrow> string" where
  "rootedIn isFile root parts =
     (case find (\<lambda>i. isFile (pathJoin [root, pathJoin (drop i parts)])) [1..<length parts] of
        None \<Rightarrow> []
      | Some i \<Rightarrow> pathJoin (take i parts))"

text \<open>
  The loop of \<open>findRoots\<close> over \<open>localgopaths\<close> for one file. The slice expression
  \<open>r[:len(r)-4]\<close> panics when \<open>r\<close> is shorter than 4 bytes: the result \<open>None\<close>.
\<close>

fun find_gopath :: "(string \<Rightarrow> bool) \<Rightarrow> Context \<Rightarrow> string list \<Rightarrow> string list \<Rightarrow> Context option" where
  "find_gopath isFile c parts [] = Some c"
| "find_gopath isFile c parts (l # ls) =
     (let r = rootedIn isFile (l @ ''/src'') parts in
      if r \<noteq> [] then
        (if length r < 4 then None
         else Some (c\<lparr>GOPATHs := AList.update (take (length r - 4) r) l (GOPATHs c)\<rparr>))
      else
        let r2 = rootedIn isFile (l @ ''/pkg/mod'') parts in
        if r2 \<noteq> [] then
          (if length r2 < 8 then None
           else Some (c\<lparr>GOPATHs := AList.update (take (length r2 - 8) r2) l (GOPATHs c)\<rparr>))
        else find_gopath isFile c parts ls)"

definition find_root :: "(string \<Rightarrow> bool) \<Rightarrow> Context \<Rightarrow> string \<Rightarrow> Context option" where
  "find_root isFile c f =
     (if GOROOT c \<noteq> [] \<and> HasPrefix f (GOROOT c @ ''/src/'') then Some c
      else if hasSrcPrefix f (GOPATHs c) then Some c
      else
        let parts = splitPath f;
            r = (if GOROOT c = [] then rootedIn isFile (localgoroot c @ ''/src'') parts else [])
        in if r \<noteq> [] then (if length r < 4 then None else Some (c\<lparr>GOROOT := take (length r - 4) r\<rparr>))
           else find_gopath isFile c parts (localgopaths c))"

fun findRoots_loop :: "(string \<Rightarrow> bool) \<Rightarrow> Context \<Rightarrow> string list \<Rightarrow> Context option" where
  "findRoots_loop isFile c [] = Some c"
| "findRoots_loop isFile c (f # fs) =
     (case find_root isFile c f of None \<Rightarrow> None | Some c' \<Rightarrow> findRoots_loop isFile c' fs)"

definition findRoots :: "(string \<Rightarrow> bool) \<Rightarrow> Context \<Rightarrow> Context option" where
  "findRoots isFile c = findRoots_loop isFile (c\<lparr>GOPATHs := []\<rparr>) (getFiles (Goroutines c))"

section \<open>ParseDump and its environment\<close>

text \<open>
  What \<open>ParseDump\<close> reads of the host: the variables \<open>GOPATH\<close> and \<open>HOME\<close> (empty when
  unset, as \<open>os.Getenv\<close> gives them), the home directory of the current user (\<open>None\<close>
  when \<open>user.Current\<close> fails), \<open>runtime.GOROOT()\<close>, and the file system.
\<close>

record host =
  env_GOPATH :: string
  env_HOME :: string
  user_HomeDir :: "string option"
  runtime_GOROOT :: string
  isFile :: "string \<Rightarrow> bool"

text \<open>\<open>filepath.SplitList\<close> where the list separator is the colon.\<close>

fun split_colon :: "string \<Rightarrow> string \<Rightarrow> string list" where
  "split_colon acc [] = [rev acc]"
| "split_colon acc (c # cs) =
     (if c = CHR '':'' then rev acc # split_colon [] cs else split_colon (c # acc) cs)"

definition SplitList :: "string \<Rightarrow> string list" where
  "SplitList p = (if p = [] then [] else split_colon [] p)"

definition gopath_entry :: "string \<Rightarrow> string" where
  "gopath_entry v =
     (let v' = Replace_backslash v in if last v' = CHR ''/'' then butlast v' else v')"

text \<open>\<open>getGOPATHs\<close>; the result \<open>None\<close> is its panic.\<close>

definition getGOPATHs :: "'a host_scheme \<Rightarrow> string list option" where
  "getGOPATHs h =
     (let out = (if env_GOPATH h \<noteq> []
                 then map gopath_entry (filter (\<lambda>v. v \<noteq> []) (SplitList (env_GOPATH h)))
                 else [])
      in if out \<noteq> [] then Some out
         else
           (case user_HomeDir h of
              None \<Rightarrow> if env_HOME h = [] then None else Some [Replace_backslash (env_HOME h @ ''/go'')]
            | Some home \<Rightarrow> Some [Replace_backslash (home @ ''/go'')]))"

text \<open>
  \<open>ParseDump\<close>. \<open>nameArguments\<close> and \<open>updateLocations\<close> are declared in other files
  of the repository and are parameters here. The result is what was written to \<open>out\<close>,
  the context (\<open>None\<close> for nil) and the error; \<open>None\<close> as a whole is a panic.
\<close>

definition ParseDump ::
  "'a host_scheme \<Rightarrow> (Goroutine list \<Rightarrow> Goroutine list) \<Rightarrow>
   (string \<Rightarrow> string \<Rightarrow> (string \<times> string) list \<Rightarrow> Goroutine \<Rightarrow> Goroutine) \<Rightarrow>
   string \<Rightarrow> nat option \<Rightarrow> bool \<Rightarrow> (string \<times> Context option \<times> error option) option" where
  "ParseDump h nameArguments updateLocations data rerr guesspaths =
     (case parseDump data rerr of
        None \<Rightarrow> None
      | Some (out, gs, err) \<Rightarrow>
          if gs = [] then Some (out, None, err)
          else
            (case getGOPATHs h of
               None \<Rightarrow> None
             | Some gps \<Rightarrow>
                 let c = \<lparr>Goroutines = nameArguments gs, GOROOT = [], GOPATHs = [],
                          localgoroot = Replace_backslash (runtime_GOROOT h), localgopaths = gps\<rparr>
                 in if guesspaths then
                      (case findRoots (isFile h) c of
                         None \<Rightarrow> None
                       | Some c' \<Rightarrow>
                           Some (out,
                             Some (c'\<lparr>Goroutines :=
                                      map (updateLocations (GOROOT c') (localgoroot c') (GOPATHs c'))
                                        (Goroutines c')\<rparr>),
                             err))
                    else Some (out, Some c, err)))"

section \<open>The scanning states that are reached\<close>

text \<open>
  What holds of the scanning state along any run of \<open>parseDump\<close>, which starts with
  race detection off: the state is one of the eight of a stack trace; the current
  goroutine exists wherever \<open>scan\<close> uses it; every goroutine before the last has calls,
  and the last has calls unless its header was the last line scanned; the calls of a
  goroutine that holds the sentinel path are exactly the one sentinel call. After the
  line of a function the calls of the current goroutine hold no sentinel path.
\<close>

definition unavailable_ok :: "Goroutine \<Rightarrow> bool" where
  "unavailable_ok g =
     ((\<exists>c\<in>set (Calls (Stack g)). SrcPath c = ''<unavailable>'') \<longrightarrow>
      Calls (Stack g) = [unavailable_Call])"

definition real_calls :: "Goroutine \<Rightarrow> bool" where
  "real_calls g = (\<forall>c\<in>set (Calls (Stack g)). SrcPath c \<noteq> ''<unavailable>'')"

definition wf_state :: "scanningState \<Rightarrow> bool" where
  "wf_state s =
     (\<not> raceDetectionEnabled s \<and>
      (\<forall>g\<in>set (butlast (goroutines s)). Calls (Stack g) \<noteq> []) \<and>
      (\<forall>g\<in>set (goroutines s). unavailable_ok g) \<and>
      (case state s of
         normal \<Rightarrow> goroutines s \<noteq> [] \<longrightarrow> Calls (Stack (last (goroutines s))) \<noteq> []
       | betweenRoutine \<Rightarrow> goroutines s \<noteq> [] \<longrightarrow> Calls (Stack (last (goroutines s))) \<noteq> []
       | gotRoutineHeader \<Rightarrow> goroutines s \<noteq> [] \<and> Calls (Stack (last (goroutines s))) = []
       | gotFunc \<Rightarrow>
           goroutines s \<noteq> [] \<and> Calls (Stack (last (goroutines s))) \<noteq> [] \<and>
           real_calls (last (goroutines s))
       | gotFileFunc \<Rightarrow>
           goroutines s \<noteq> [] \<and> Calls (Stack (last (goroutines s))) \<noteq> [] \<and>
           real_calls (last (goroutines s))
       | gotCreated \<Rightarrow> goroutines s \<noteq> [] \<and> Calls (Stack (last (goroutines s))) \<noteq> []
       | gotFileCreated \<Rightarrow> goroutines s \<noteq> [] \<and> Calls (Stack (last (goroutines s))) \<noteq> []
       | gotUnavail \<Rightarrow> goroutines s \<noteq> [] \<and> Calls (Stack (last (goroutines s))) \<noteq> []
       | _ \<Rightarrow> False))"

text \<open>
  What one call of \<open>scan\<close> gives from such a state: a result (no panic), a state of
  the same kind when there is no error, and goroutines that are the old ones, or the old
  ones with the last one updated, or the old ones and a new one.
\<close>

definition step_post :: "scanningState \<Rightarrow> scan_result \<Rightarrow> bool" where
  "step_post s r =
     (case r of
        None \<Rightarrow> False
      | Some (out, e, s') \<Rightarrow>
          (e = None \<longrightarrow> wf_state s') \<and>
          (\<forall>g\<in>set (goroutines s'). unavailable_ok g) \<and>
          (goroutines s' = goroutines s \<or>
           (goroutines s \<noteq> [] \<and>
            (\<exists>g'. goroutines s' = butlast (goroutines s) @ [g'] \<and> ID g' = ID (last (goroutines s)))) \<or>
           (e = None \<and> (\<exists>g. goroutines s' = goroutines s @ [g]))))"

text \<open>
  \<open>extends gs gs'\<close>: the goroutines \<open>gs'\<close> are \<open>gs\<close>, its last one perhaps updated,
  then perhaps more.
\<close>

definition extends :: "Goroutine list \<Rightarrow> Goroutine list \<Rightarrow> bool" where
  "extends gs gs' =
     (length gs \<le> length gs' \<and> prefix (butlast gs) gs' \<and> prefix (map ID gs) (map ID gs'))"

text \<open>
  The states in which \<open>scan\<close> leaves the goroutines found so far as they are until
  the next header (\<open>frozen\<close>), and those in which it leaves the calls of the current
  goroutine as they are (\<open>calls_done\<close>).
\<close>

definition frozen :: "state \<Rightarrow> bool" where
  "frozen st = (st = normal \<or> st = betweenRoutine \<or> st = gotFileCreated)"

definition calls_done :: "state \<Rightarrow> bool" where
  "calls_done st = (frozen st \<or> st = gotUnavail \<or> st = gotCreated)"


section \<open>Well-formed blocks\<close>

text \<open>
  The block of one goroutine as the specification describes it, stated with the patterns
  of the source: a header line; one or more pairs of a function-call line and a file line;
  optionally a \<open>created by\<close> line and a file line; an empty line. Every line ends with
  a newline, holds no other newline and fits the buffer of the scanner; every line but
  the empty one starts with the indentation \<open>p\<close> of the header. A function-call line
  is one that \<open>parseFunc\<close> reads with all its arguments and that is neither the marker
  of an unavailable stack nor a creation line, which the switch of \<open>scan\<close> tests first.
  A file line is one that \<open>parseFile\<close> reads with its line number.

  \<open>call_of\<close>, \<open>created_of\<close> and \<open>header_goroutine\<close> are what \<open>parseFunc\<close>,
  \<open>parseFile\<close> and the header pattern give for these lines; \<open>in_block\<close> names the
  indentation, the state and the goroutines of a scanning state.
\<close>

definition text_line :: "string \<Rightarrow> bool" where
  "text_line l = (HasSuffix l [NL] \<and> NL \<notin> set (butlast l) \<and> length l \<le> MaxScanTokenSize)"

definition line_body :: "string \<Rightarrow> string \<Rightarrow> string" where
  "line_body p l = drop (length p) (chomp l)"

definition indented_line :: "string \<Rightarrow> string \<Rightarrow> bool" where
  "indented_line p l = (text_line l \<and> HasPrefix (chomp l) p)"

definition header_line :: "string \<Rightarrow> string \<Rightarrow> bool" where
  "header_line p l =
     (text_line l \<and>
      (case reRoutineHeader (chomp l) of
         None \<Rightarrow> False
       | Some (ind, num, bd) \<Rightarrow> ind = p \<and> \<not> snd (Atoi num)))"

definition function_line :: "string \<Rightarrow> string \<Rightarrow> bool" where
  "function_line p l =
     (indented_line p l \<and>
      (case parseFunc zero_Call (line_body p l) of (found, err, c) \<Rightarrow> found \<and> err = None) \<and>
      \<not> reUnavail (line_body p l) \<and> reCreated (line_body p l) = None)"

definition file_line :: "string \<Rightarrow> string \<Rightarrow> bool" where
  "file_line p l =
     (indented_line p l \<and>
      (case parseFile zero_Call (line_body p l) of (found, err, c) \<Rightarrow> found \<and> err = None))"

definition created_line :: "string \<Rightarrow> string \<Rightarrow> bool" where
  "created_line p l = (indented_line p l \<and> reCreated (line_body p l) \<noteq> None)"

definition empty_line :: "string \<Rightarrow> bool" where
  "empty_line l = (text_line l \<and> chomp l = [])"

definition well_formed_block ::
  "string \<Rightarrow> string \<Rightarrow> (string \<times> string) list \<Rightarrow> (string \<times> string) option \<Rightarrow> string \<Rightarrow> bool" where
  "well_formed_block p hdr pairs created e =
     (header_line p hdr \<and> pairs \<noteq> [] \<and>
      list_all (\<lambda>(f, fl). function_line p f \<and> file_line p fl) pairs \<and>
      (case created of None \<Rightarrow> True | Some (c, fl) \<Rightarrow> created_line p c \<and> file_line p fl) \<and>
      empty_line e)"

definition block_lines ::
  "string \<Rightarrow> (string \<times> string) list \<Rightarrow> (string \<times> string) option \<Rightarrow> string \<Rightarrow> string list" where
  "block_lines hdr pairs created e =
     hdr # concat (map (\<lambda>(f, fl). [f, fl]) pairs) @
     (case created of None \<Rightarrow> [] | Some (c, fl) \<Rightarrow> [c, fl]) @ [e]"

definition call_of :: "string \<Rightarrow> string \<times> string \<Rightarrow> Call" where
  "call_of p = (\<lambda>(f, fl).
     snd (snd (parseFile (snd (snd (parseFunc zero_Call (line_body p f)))) (line_body p fl))))"

definition created_of :: "string \<Rightarrow> (string \<times> string) option \<Rightarrow> Call" where
  "created_of p created =
     (case created of
        None \<Rightarrow> zero_Call
      | Some (c, fl) \<Rightarrow>
          snd (snd (parseFile (zero_Call\<lparr>Call_Func := \<lparr>Raw = the (reCreated (line_body p c))\<rparr>\<rparr>)
                      (line_body p fl))))"

definition header_goroutine :: "string \<Rightarrow> Goroutine" where
  "header_goroutine hdr =
     (case reRoutineHeader (chomp hdr) of
        None \<Rightarrow> new_goroutine initial_state 0 []
      | Some (ind, num, bd) \<Rightarrow> new_goroutine initial_state (fst (Atoi num)) bd)"

definition in_block :: "string \<Rightarrow> state \<Rightarrow> Goroutine list \<Rightarrow> scanningState \<Rightarrow> bool" where
  "in_block p st gs s = (prefix_str s = p \<and> state s = st \<and> goroutines s = gs)"


section \<open>Sample inputs\<close>

text \<open>Inputs and hosts on which the theorems below are instantiated.\<close>

definition junk_input :: string where
  "junk_input = ''panic: x'' @ NL # ''goroutine one'' @ CR # NL # ''exit status 2''"

definition bare_host :: host where
  "bare_host = \<lparr>env_GOPATH = [], env_HOME = [], user_HomeDir = None, runtime_GOROOT = [],
                 isFile = (\<lambda>p. False)\<rparr>"

definition with_eol :: "string list \<Rightarrow> string list" where
  "with_eol ls = map (\<lambda>l. l @ [NL]) ls"

definition dump_text :: "string list \<Rightarrow> string" where
  "dump_text ls = concat (with_eol ls)"

definition indented_header_state :: scanningState where
  "indented_header_state =
     \<lparr>raceDetectionEnabled = False, goroutines = [new_goroutine initial_state 1 ''running''],
      state = gotRoutineHeader, prefix_str = ''  '', races = []\<rparr>"

definition lone_header :: "string list" where
  "lone_header = [''goroutine 1 [running]:'']"




definition two_blocks :: "string list" where
  "two_blocks =
     [''goroutine 1 [running]:'', ''main.f(1, 2, ...)'', TAB # ''/a/b.go:12 +0x1'', [],
      ''goroutine 2 [runnable]:'', TAB # ''goroutine running on other thread; stack unavailable'',
      ''created by main.h'', TAB # ''/a/d.go:14'', []]"
definition elided_then_call :: "string list" where
  "elided_then_call =
     [''goroutine 1 [running]:'', ''main.f()'', TAB # ''/a.go:1'',
      ''...additional frames elided...'', ''main.g()'', TAB # ''/b.go:2'', []]"
definition broken_block :: "string list" where
  "broken_block =
     [''goroutine 7 [running]:'', ''main.f()'', TAB # ''/a.go:1'', ''main.g(zz)'', ''goroutine 8 [running]:'']"
definition sleepy_header :: "string list" where
  "sleepy_header = [''goroutine 1 [sleep, 99999999999999999999 minutes]:'', ''main.f()'', TAB # ''/a.go:1'', []]"

definition call_at :: "string \<Rightarrow> string \<Rightarrow> int \<Rightarrow> Call" where
  "call_at f path n = zero_Call\<lparr>SrcPath := path, Line := n, Call_Func := \<lparr>Raw = f\<rparr>\<rparr>"

definition broken_goroutine :: "Call list \<Rightarrow> Goroutine" where
  "broken_goroutine cs =
     (new_goroutine initial_state 7 ''running'')\<lparr>Stack := \<lparr>Calls = cs, Stack_Elided = False\<rparr>\<rparr>"

definition broken_before :: scanningState where
  "broken_before =
     initial_state\<lparr>goroutines := [broken_goroutine [call_at ''main.f'' ''/a.go'' 1]],
                   state := gotFileFunc\<rparr>"

definition broken_after :: scanningState where
  "broken_after =
     initial_state\<lparr>goroutines :=
                     [broken_goroutine [call_at ''main.f'' ''/a.go'' 1, call_at ''main.g'' [] 0]],
                   state := gotFunc\<rparr>"

definition home_host :: host where
  "home_host = bare_host\<lparr>env_HOME := ''/home/u''\<rparr>"

definition unavailable_goroutine :: Goroutine where
  "unavailable_goroutine =
     \<lparr>Sig = \<lparr>State = ''runnable'', SleepMin = 0, SleepMax = 0, Locked = False\<rparr>,
      ID = 2, First = False,
      Stack = \<lparr>Calls = [unavailable_Call], Stack_Elided = False\<rparr>,
      CreatedBy = call_at ''main.h'' ''/a/d.go'' 14\<rparr>"

definition running_goroutine :: Goroutine where
  "running_goroutine =
     \<lparr>Sig = \<lparr>State = ''running'', SleepMin = 0, SleepMax = 0, Locked = False\<rparr>,
      ID = 1, First = True,
      Stack = \<lparr>Calls = [(call_at ''main.f'' ''/a/b.go'' 12)
                 \<lparr>Call_Args := \<lparr>Values = [\<lparr>Value = 1\<rparr>, \<lparr>Value = 2\<rparr>], Args_Elided = True\<rparr>\<rparr>],
               Stack_Elided = False\<rparr>,
      CreatedBy = zero_Call\<rparr>"

definition two_blocks_final :: scanningState where
  "two_blocks_final =
     initial_state\<lparr>goroutines := [running_goroutine, unavailable_goroutine], state := betweenRoutine\<rparr>"

definition sleepy_goroutine :: Goroutine where
  "sleepy_goroutine =
     \<lparr>Sig = \<lparr>State = ''sleep'', SleepMin = 9223372036854775807, SleepMax = 9223372036854775807,
              Locked = False\<rparr>,
      ID = 1, First = True,
      Stack = \<lparr>Calls = [call_at ''main.f'' ''/a.go'' 1], Stack_Elided = False\<rparr>,
      CreatedBy = zero_Call\<rparr>"




definition two_blocks_header :: scanningState where
  "two_blocks_header =
     initial_state\<lparr>goroutines :=
                     [running_goroutine,
                      \<lparr>Sig = \<lparr>State = ''runnable'', SleepMin = 0, SleepMax = 0, Locked = False\<rparr>,
                       ID = 2, First = False, Stack = zero_Stack, CreatedBy = zero_Call\<rparr>],
                   state := gotRoutineHeader\<rparr>"

definition huge_id_header :: string where
  "huge_id_header = ''goroutine 99999999999999999999 [running]:'' @ [NL]"

definition sample_header :: string where
  "sample_header = ''  goroutine 5 [chan receive, 3 minutes]:'' @ [NL]"

definition sample_pairs :: "(string \<times> string) list" where
  "sample_pairs =
     [(''  main.f(1, 2, ...)'' @ [NL], ''  '' @ TAB # ''/a/b.go:12 +0x1'' @ [NL]),
      (''  main.g()'' @ [NL], ''  '' @ TAB # ''/a/c.go:13'' @ [NL])]"

definition sample_created :: "(string \<times> string) option" where
  "sample_created = Some (''  created by main.h'' @ [NL], ''  '' @ TAB # ''/a/d.go:14'' @ [NL])"

definition sample_goroutine :: Goroutine where
  "sample_goroutine =
     \<lparr>Sig = \<lparr>State = ''chan receive'', SleepMin = 3, SleepMax = 3, Locked = False\<rparr>,
      ID = 5, First = True,
      Stack = \<lparr>Calls = [(call_at ''main.f'' ''/a/b.go'' 12)
                          \<lparr>Call_Args := \<lparr>Values = [\<lparr>Value = 1\<rparr>, \<lparr>Value = 2\<rparr>], Args_Elided = True\<rparr>\<rparr>,
                        call_at ''main.g'' ''/a/c.go'' 13],
               Stack_Elided = False\<rparr>,
      CreatedBy = call_at ''main.h'' ''/a/d.go'' 14\<rparr>"


section \<open>Argument lists\<close>

text \<open>
  C5: the argument list of a function-call line. \<open>main.f(1, 2, ...)\<close> gives the two
  values 1 and 2 and \<open>Elided\<close> set; \<open>main.f()\<close> gives no value and \<open>Elided\<close> unset;
  \<open>main.f(1, )\<close> gives the one value 1 and no error, the loop ending at the empty piece
  after the comma.
\<close>

theorem parseFunc_argument_lists:
  "parseFunc zero_Call ''main.f(1, 2, ...)'' =
     (True, None, zero_Call\<lparr>Call_Func := \<lparr>Raw = ''main.f''\<rparr>,
        Call_Args := \<lparr>Values = [\<lparr>Value = 1\<rparr>, \<lparr>Value = 2\<rparr>], Args_Elided = True\<rparr>\<rparr>) \<and>
   parseFunc zero_Call ''main.f()'' =
     (True, None, zero_Call\<lparr>Call_Func := \<lparr>Raw = ''main.f''\<rparr>,
        Call_Args := \<lparr>Values = [], Args_Elided = False\<rparr>\<rparr>) \<and>
   parseFunc zero_Call ''main.f(1, )'' =
     (True, None, zero_Call\<lparr>Call_Func := \<lparr>Raw = ''main.f''\<rparr>,
        Call_Args := \<lparr>Values = [\<lparr>Value = 1\<rparr>], Args_Elided = False\<rparr>\<rparr>)"
  by code_simp

section \<open>The line scanner gives back its input\<close>

lemma takeWhile_not_NL_less:
  "NL \<in> set d \<Longrightarrow> length (takeWhile (\<lambda>c. c \<noteq> NL) d) < length d"
  by (induction d) auto

lemma scanLines_token:
  assumes "rest \<noteq> []"
  shows "\<exists>adv. scanLines (take MaxScanTokenSize rest) (length rest \<le> MaxScanTokenSize) =
            (adv, Some (take adv rest), None) \<and> 0 < adv \<and> adv \<le> length rest"
proof (cases "NL \<in> set (take MaxScanTokenSize rest)")
  case True
  let ?d = "take MaxScanTokenSize rest"
  let ?i = "length (takeWhile (\<lambda>c. c \<noteq> NL) ?d)"
  have "?i < length ?d" using True by (rule takeWhile_not_NL_less)
  then have le: "?i + 1 \<le> length ?d" by simp
  then have "?i + 1 \<le> MaxScanTokenSize" by simp
  then have "take (?i + 1) ?d = take (?i + 1) rest"
    by (simp add: min_absorb1)
  moreover have "?i + 1 \<le> length rest" using le by simp
  ultimately show ?thesis using True assms
    by (simp add: scanLines_def Let_def)
next
  case False
  then show ?thesis using assms
    by (auto simp: scanLines_def MaxScanTokenSize_def)
qed

lemma scanner_run_step:
  assumes "rest \<noteq> []"
  shows "\<exists>adv. 0 < adv \<and> adv \<le> length rest \<and>
           scanLines (take MaxScanTokenSize rest) (length rest \<le> MaxScanTokenSize) =
             (adv, Some (take adv rest), None) \<and>
           scanner_run rest =
             (take adv rest # fst (scanner_run (drop adv rest)), snd (scanner_run (drop adv rest)))"
proof -
  from scanLines_token[OF assms] obtain adv where
    st: "scanLines (take MaxScanTokenSize rest) (length rest \<le> MaxScanTokenSize) =
           (adv, Some (take adv rest), None)"
    and adv: "0 < adv" "adv \<le> length rest" by blast
  have "scanner_run rest =
          (take adv rest # fst (scanner_run (drop adv rest)), snd (scanner_run (drop adv rest)))"
    using assms st adv by (subst scanner_run.simps) (simp split: prod.splits)
  then show ?thesis using st adv by blast
qed

lemma scanner_run_no_error: "snd (scanner_run input) = None"
proof (induction input rule: scanner_run.induct)
  case (1 rest)
  show ?case
  proof (cases "rest = []")
    case True
    then show ?thesis by (subst scanner_run.simps) simp
  next
    case False
    from scanner_run_step[OF False] obtain adv where
      st: "scanLines (take MaxScanTokenSize rest) (length rest \<le> MaxScanTokenSize) =
             (adv, Some (take adv rest), None)"
      and adv: "0 < adv"
      and eq: "scanner_run rest =
             (take adv rest # fst (scanner_run (drop adv rest)), snd (scanner_run (drop adv rest)))"
      by blast
    have "snd (scanner_run (drop adv rest)) = None"
      using 1[OF False st[symmetric] refl refl] adv by simp
    then show ?thesis using eq by simp
  qed
qed

lemma scanner_run_concat: "concat (fst (scanner_run input)) = input"
proof (induction input rule: scanner_run.induct)
  case (1 rest)
  show ?case
  proof (cases "rest = []")
    case True
    then show ?thesis by (subst scanner_run.simps) simp
  next
    case False
    from scanner_run_step[OF False] obtain adv where
      st: "scanLines (take MaxScanTokenSize rest) (length rest \<le> MaxScanTokenSize) =
             (adv, Some (take adv rest), None)"
      and adv: "0 < adv"
      and eq: "scanner_run rest =
             (take adv rest # fst (scanner_run (drop adv rest)), snd (scanner_run (drop adv rest)))"
      by blast
    have "concat (fst (scanner_run (drop adv rest))) = drop adv rest"
      using 1[OF False st[symmetric] refl refl] adv by simp
    then show ?thesis using eq by simp
  qed
qed

lemma scanner_run_Nil: "scanner_run [] = ([], None)"
  by (subst scanner_run.simps) simp

lemma takeWhile_upto_NL:
  "NL \<notin> set l \<Longrightarrow> takeWhile (\<lambda>c. c \<noteq> NL) (l @ NL # r) = l"
  by (induction l) auto

lemma scanLines_NL:
  "NL \<notin> set l \<Longrightarrow> scanLines (l @ NL # r) b = (length l + 1, Some (l @ [NL]), None)"
  by (simp add: scanLines_def takeWhile_upto_NL)

lemma scanLines_line:
  assumes "NL \<notin> set l" "length l < MaxScanTokenSize"
  shows "scanLines (take MaxScanTokenSize (l @ NL # rest)) b = (length l + 1, Some (l @ [NL]), None)"
proof -
  have d: "take MaxScanTokenSize (l @ NL # rest) = l @ NL # take (MaxScanTokenSize - length l - 1) rest"
    using assms(2) by (simp add: take_Cons')
  show ?thesis unfolding d using assms(1) by (rule scanLines_NL)
qed

lemma scanner_run_line:
  assumes "NL \<notin> set l" "length l < MaxScanTokenSize"
  shows "scanner_run (l @ NL # rest) = ((l @ [NL]) # fst (scanner_run rest), snd (scanner_run rest))"
proof -
  have st: "scanLines (take MaxScanTokenSize (l @ NL # rest))
              (length (l @ NL # rest) \<le> MaxScanTokenSize) = (length l + 1, Some (l @ [NL]), None)"
    using assms by (rule scanLines_line)
  show ?thesis
    by (subst scanner_run.simps) (simp only: st, simp split: prod.splits)
qed

lemma scanner_run_last:
  assumes "NL \<notin> set l" "l \<noteq> []" "length l \<le> MaxScanTokenSize"
  shows "scanner_run l = ([l], None)"
  using assms
  by (subst scanner_run.simps) (simp add: scanLines_def scanner_run_Nil)


lemma scanner_run_lines:
  assumes "\<forall>l\<in>set ls. NL \<notin> set l \<and> length l < MaxScanTokenSize"
    and "NL \<notin> set t" "length t \<le> MaxScanTokenSize"
  shows "scanner_run (concat (map (\<lambda>l. l @ [NL]) ls) @ t) =
           (map (\<lambda>l. l @ [NL]) ls @ (if t = [] then [] else [t]), None)"
  using assms(1)
proof (induction ls)
  case Nil
  then show ?case using assms(2,3) by (simp add: scanner_run_Nil scanner_run_last)
next
  case (Cons l ls)
  then have l: "NL \<notin> set l" "length l < MaxScanTokenSize" by simp_all
  have "scanner_run (l @ NL # (concat (map (\<lambda>l. l @ [NL]) ls) @ t)) =
          ((l @ [NL]) # fst (scanner_run (concat (map (\<lambda>l. l @ [NL]) ls) @ t)),
           snd (scanner_run (concat (map (\<lambda>l. l @ [NL]) ls) @ t)))"
    using l by (rule scanner_run_line)
  then show ?case using Cons by simp
qed

lemma scan_passthrough:
  assumes "state s = normal" "prefix_str s = []" "\<not> raceDetectionEnabled s"
    and "reRoutineHeader (chomp l) = None"
  shows "scan s l = Some (l, None, s)"
  using assms
  by (simp add: scan_def scan_state_def scan_header_def scan_no_header_def)

lemma loop_passthrough:
  assumes "state s = normal" "prefix_str s = []" "\<not> raceDetectionEnabled s"
    and "\<forall>l\<in>set ls. reRoutineHeader (chomp l) = None"
  shows "parseDump_loop s ls out = Some (out @ concat ls, None, s)"
  using assms
  by (induction ls arbitrary: out) (simp_all add: scan_passthrough)

text \<open>
  C1: when no line of the input matches the header pattern, \<open>parseDump\<close> finds no
  goroutine and writes the input to the output as it is, byte for byte; \<open>ParseDump\<close>
  then returns a nil context. The error is the reader's, if it has one.
\<close>

theorem no_header_identity:
  assumes "\<forall>l\<in>set (fst (scanner_run input)). reRoutineHeader (chomp l) = None"
  shows "parseDump input rerr = Some (input, [], map_option StreamError rerr) \<and>
         ParseDump h na ul input rerr guesspaths = Some (input, None, map_option StreamError rerr)"
proof -
  obtain toks serr where sr: "scanner_run input = (toks, serr)" by (cases "scanner_run input")
  have serr: "serr = None" using scanner_run_no_error[of input] sr by simp
  have cc: "concat toks = input" using scanner_run_concat[of input] sr by simp
  have "parseDump_loop initial_state toks [] = Some ([] @ concat toks, None, initial_state)"
    using assms sr by (intro loop_passthrough) (simp_all add: initial_state_def)
  then have pd: "parseDump input rerr = Some (input, [], map_option StreamError rerr)"
    using sr serr cc by (simp add: parseDump_def initial_state_def)
  then show ?thesis by (simp add: ParseDump_def)
qed

lemma junk_input_tokens:
  "scanner_run junk_input =
     ([''panic: x'' @ [NL], ''goroutine one'' @ [CR, NL], ''exit status 2''], None)"
proof -
  have eq: "junk_input =
          concat (map (\<lambda>l. l @ [NL]) [''panic: x'', ''goroutine one'' @ [CR]]) @ ''exit status 2''"
    by (simp add: junk_input_def)
  show ?thesis
    unfolding eq by (subst scanner_run_lines) (simp_all add: MaxScanTokenSize_def)
qed

theorem no_header_identity_witness:
  "list_all (\<lambda>l. reRoutineHeader (chomp l) = None) (fst (scanner_run junk_input)) \<and>
   parseDump junk_input None = Some (junk_input, [], None) \<and>
   ParseDump bare_host (\<lambda>gs. gs) (\<lambda>r l m g. g) junk_input None True = Some (junk_input, None, None)"
proof -
  have h: "list_all (\<lambda>l. reRoutineHeader (chomp l) = None) (fst (scanner_run junk_input))"
    unfolding junk_input_tokens by code_simp
  then have "\<forall>l\<in>set (fst (scanner_run junk_input)). reRoutineHeader (chomp l) = None"
    by (simp add: list_all_iff)
  from no_header_identity[OF this, of None bare_host "\<lambda>gs. gs" "\<lambda>r l m g. g" True] h
  show ?thesis by simp
qed

section \<open>Lines without end, lines too long\<close>

lemma loop_unterminated:
  assumes "state s = normal" "\<forall>l\<in>set ls. \<not> HasSuffix l [NL]"
  shows "parseDump_loop s ls out = Some (out @ concat ls, None, s)"
  using assms
  by (induction ls arbitrary: out) (simp_all add: scan_def)

lemma HasSuffix_NL_mem: "HasSuffix l [NL] \<Longrightarrow> NL \<in> set l"
  by (auto simp: HasSuffix_def suffix_def)

lemma parseDump_dump_text:
  assumes "\<forall>l\<in>set ls. NL \<notin> set l \<and> length l < MaxScanTokenSize"
  shows "parseDump (dump_text ls) rerr =
           (case parseDump_loop initial_state (with_eol ls) [] of
              None \<Rightarrow> None
            | Some (out, Some e, s) \<Rightarrow> Some (out, goroutines s, Some e)
            | Some (out, None, s) \<Rightarrow> Some (out, goroutines s, map_option StreamError rerr))"
proof -
  have "scanner_run (concat (map (\<lambda>l. l @ [NL]) ls) @ []) =
          (map (\<lambda>l. l @ [NL]) ls @ (if [] = ([]::string) then [] else [[]]), None)"
    using assms by (intro scanner_run_lines) simp_all
  then have "scanner_run (dump_text ls) = (with_eol ls, None)"
    by (simp add: dump_text_def with_eol_def)
  then show ?thesis by (simp add: parseDump_def split: option.splits prod.splits)
qed

text \<open>
  C9: \<open>scanLines\<close> never returns an error, and neither does the scanner built on it.
  A buffer without newline that is full, or that is all that is left of the stream, is
  given as one token. In the state \<open>normal\<close> a line that does not end with a newline is
  passed through as it is, without being matched against any pattern; so an input with
  no newline at all, however long, is copied to the output.
\<close>

theorem long_or_unterminated_line:
  "snd (snd (scanLines data atEOF)) = None \<and>
   snd (scanner_run input) = None \<and>
   (NL \<notin> set data \<and> data \<noteq> [] \<and> (atEOF \<or> MaxScanTokenSize \<le> length data) \<longrightarrow>
      scanLines data atEOF = (length data, Some data, None)) \<and>
   (\<not> HasSuffix line [NL] \<and> state s = normal \<longrightarrow> scan s line = Some (line, None, s)) \<and>
   (NL \<notin> set input \<longrightarrow> parseDump input rerr = Some (input, [], map_option StreamError rerr))"
proof (intro conjI impI)
  show "snd (snd (scanLines data atEOF)) = None"
    by (simp add: scanLines_def Let_def)
  show "snd (scanner_run input) = None"
    by (rule scanner_run_no_error)
  show "scanLines data atEOF = (length data, Some data, None)"
    if "NL \<notin> set data \<and> data \<noteq> [] \<and> (atEOF \<or> MaxScanTokenSize \<le> length data)"
    using that by (auto simp: scanLines_def)
  show "scan s line = Some (line, None, s)" if "\<not> HasSuffix line [NL] \<and> state s = normal"
    using that by (simp add: scan_def)
  show "parseDump input rerr = Some (input, [], map_option StreamError rerr)" if nl: "NL \<notin> set input"
  proof -
    obtain toks serr where sr: "scanner_run input = (toks, serr)" by (cases "scanner_run input")
    have serr: "serr = None" using scanner_run_no_error[of input] sr by simp
    have cc: "concat toks = input" using scanner_run_concat[of input] sr by simp
    have "\<forall>l\<in>set toks. \<not> HasSuffix l [NL]"
    proof
      fix l assume "l \<in> set toks"
      then have "set l \<subseteq> set input" using cc by auto
      then show "\<not> HasSuffix l [NL]" using nl HasSuffix_NL_mem by blast
    qed
    then have "parseDump_loop initial_state toks [] = Some ([] @ concat toks, None, initial_state)"
      by (intro loop_unterminated) (simp_all add: initial_state_def)
    then show ?thesis using sr serr cc by (simp add: parseDump_def initial_state_def)
  qed
qed

theorem long_or_unterminated_line_witness:
  "NL \<notin> set (replicate 65536 (CHR ''a'')) \<and> replicate 65536 (CHR ''a'') \<noteq> [] \<and>
   MaxScanTokenSize \<le> length (replicate 65536 (CHR ''a'')) \<and>
   scanLines (replicate 65536 (CHR ''a'')) False = (65536, Some (replicate 65536 (CHR ''a'')), None) \<and>
   \<not> HasSuffix ''goroutine 1 [running]:'' [NL] \<and> state initial_state = normal \<and>
   scan initial_state ''goroutine 1 [running]:'' = Some (''goroutine 1 [running]:'', None, initial_state) \<and>
   NL \<notin> set ''goroutine 1 [running]:'' \<and>
   parseDump ''goroutine 1 [running]:'' None = Some (''goroutine 1 [running]:'', [], None)"
proof -
  have h1: "\<not> HasSuffix ''goroutine 1 [running]:'' [NL]" by code_simp
  have h2: "state initial_state = normal" by (simp add: initial_state_def)
  have h3: "MaxScanTokenSize \<le> length (replicate 65536 (CHR ''a''))"
    by (simp add: MaxScanTokenSize_def)
  from long_or_unterminated_line[of "replicate 65536 (CHR ''a'')" False "''goroutine 1 [running]:''"
      "''goroutine 1 [running]:''" initial_state None] h1 h2 h3
  show ?thesis by simp
qed

section \<open>The panic of getGOPATHs\<close>

text \<open>
  C10: when \<open>parseDump\<close> found a goroutine, \<open>ParseDump\<close> calls \<open>getGOPATHs\<close>,
  whatever \<open>guesspaths\<close> is. When \<open>GOPATH\<close> has no non-empty entry, the current user
  cannot be found and \<open>HOME\<close> is empty, \<open>getGOPATHs\<close> panics, and so does \<open>ParseDump\<close>.
\<close>

theorem getGOPATHs_panic:
  assumes "parseDump data rerr = Some (out, gs, err)" and "gs \<noteq> []"
    and "\<forall>v\<in>set (SplitList (env_GOPATH h)). v = []"
    and "user_HomeDir h = None" and "env_HOME h = []"
  shows "getGOPATHs h = None \<and> ParseDump h nameArguments updateLocations data rerr guesspaths = None"
proof -
  have "filter (\<lambda>v. v \<noteq> []) (SplitList (env_GOPATH h)) = []"
    using assms(3) by (simp add: filter_empty_conv)
  then have "getGOPATHs h = None"
    using assms(4,5) by (simp add: getGOPATHs_def)
  then show ?thesis using assms(1,2) by (simp add: ParseDump_def)
qed


lemma lone_header_parse:
  "parseDump (dump_text lone_header) None =
     Some ([], [new_goroutine initial_state 1 ''running''], None)"
  by (subst parseDump_dump_text) (simp add: lone_header_def MaxScanTokenSize_def, code_simp)

theorem getGOPATHs_panic_witness:
  "parseDump (dump_text lone_header) None =
     Some ([], [new_goroutine initial_state 1 ''running''], None) \<and>
   [new_goroutine initial_state 1 ''running''] \<noteq> [] \<and>
   list_all (\<lambda>v. v = []) (SplitList (env_GOPATH (bare_host\<lparr>env_GOPATH := '':''\<rparr>))) \<and>
   user_HomeDir (bare_host\<lparr>env_GOPATH := '':''\<rparr>) = None \<and>
   env_HOME (bare_host\<lparr>env_GOPATH := '':''\<rparr>) = [] \<and>
   getGOPATHs (bare_host\<lparr>env_GOPATH := '':''\<rparr>) = None \<and>
   ParseDump (bare_host\<lparr>env_GOPATH := '':''\<rparr>) (\<lambda>gs. gs) (\<lambda>r l m g. g) (dump_text lone_header) None False = None"
proof -
  have h3: "list_all (\<lambda>v. v = []) (SplitList (env_GOPATH (bare_host\<lparr>env_GOPATH := '':''\<rparr>)))"
    by (simp add: SplitList_def)
  then have h3': "\<forall>v\<in>set (SplitList (env_GOPATH (bare_host\<lparr>env_GOPATH := '':''\<rparr>))). v = []"
    by (simp add: list_all_iff)
  have h4: "user_HomeDir (bare_host\<lparr>env_GOPATH := '':''\<rparr>) = None"
    and h5: "env_HOME (bare_host\<lparr>env_GOPATH := '':''\<rparr>) = []"
    by (simp_all add: bare_host_def)
  from getGOPATHs_panic[OF lone_header_parse _ h3' h4 h5, of "\<lambda>gs. gs" "\<lambda>r l m g. g" False]
    lone_header_parse h3 h4 h5
  show ?thesis by simp
qed

section \<open>Root resolution\<close>


lemma rootedIn_none:
  assumes "\<forall>j. 1 \<le> j \<and> j < length parts \<longrightarrow> \<not> fs (pathJoin [root, pathJoin (drop j parts)])"
  shows "rootedIn fs root parts = []"
proof -
  have "find (\<lambda>k. fs (pathJoin [root, pathJoin (drop k parts)])) [1..<length parts] = None"
    using assms by (simp add: find_None_iff)
  then show ?thesis by (simp add: rootedIn_def)
qed













section \<open>Every run keeps the scanning state well formed\<close>

lemma parseArgs_SrcPath: "SrcPath (snd (parseArgs line c as)) = SrcPath c"
  by (induction line c as rule: parseArgs.induct) (auto split: option.splits)

lemma parseFunc_SrcPath:
  "parseFunc c t = (found, e, c') \<Longrightarrow> SrcPath c' = SrcPath c"
proof (cases "reFunc t")
  case None
  then show "parseFunc c t = (found, e, c') \<Longrightarrow> SrcPath c' = SrcPath c"
    by (simp add: parseFunc_def)
next
  case (Some m)
  obtain name args where m: "m = (name, args)" by (cases m)
  assume "parseFunc c t = (found, e, c')"
  then have "c' = snd (parseArgs t (c\<lparr>Call_Func := (Call_Func c)\<lparr>Raw := name\<rparr>\<rparr>) (Split_comma_space args))"
    using Some m by (simp add: parseFunc_def split: prod.splits)
  then show "SrcPath c' = SrcPath c" by (simp add: parseArgs_SrcPath)
qed

lemma parseFunc_not_found:
  "parseFunc c t = (False, e, c') \<Longrightarrow> e = None \<and> c' = c \<and> reFunc t = None"
  by (auto simp: parseFunc_def split: option.splits prod.splits)

lemma not_file_path_unavailable: "\<not> file_path ''<unavailable>''"
  by code_simp

lemma reFile_not_unavailable: "reFile t = Some (p, n) \<Longrightarrow> p \<noteq> ''<unavailable>''"
  using not_file_path_unavailable
  by (auto simp: reFile_def Let_def split: list.splits if_splits)

lemma parseFile_cases:
  "parseFile c t = (found, e, c') \<Longrightarrow>
     (found \<and> e = None \<and> (\<exists>p n. c' = c\<lparr>SrcPath := p, Line := n\<rparr> \<and> p \<noteq> ''<unavailable>'')) \<or>
     ((\<not> found \<or> e \<noteq> None) \<and> c' = c)"
  by (auto simp: parseFile_def split: option.splits prod.splits bool.splits dest: reFile_not_unavailable)


lemma wf_unavailable_ok: "wf_state s \<Longrightarrow> g \<in> set (goroutines s) \<Longrightarrow> unavailable_ok g"
  by (simp add: wf_state_def)

lemma new_goroutine_Calls [simp]: "Calls (Stack (new_goroutine s n body)) = []"
  by (simp add: new_goroutine_def zero_Stack_def Let_def split: prod.splits)

lemma step_header:
  assumes "wf_state s" "state s = normal \<or> state s = betweenRoutine"
  shows "step_post s (scan_header s line t)"
proof -
  have all: "\<forall>g\<in>set (goroutines s). Calls (Stack g) \<noteq> []"
  proof
    fix g assume g: "g \<in> set (goroutines s)"
    then have ne: "goroutines s \<noteq> []" by auto
    then have "goroutines s = butlast (goroutines s) @ [last (goroutines s)]" by simp
    then have "g \<in> set (butlast (goroutines s)) \<or> g = last (goroutines s)"
      using g by (metis Un_iff insert_iff list.set(2) set_append empty_set empty_iff)
    then show "Calls (Stack g) \<noteq> []" using assms ne by (auto simp: wf_state_def)
  qed
  show ?thesis
    using assms all
    by (auto simp: step_post_def scan_header_def scan_no_header_def wf_state_def unavailable_ok_def
        split: option.splits prod.splits bool.splits)
qed


lemma in_set_butlast_last:
  "gs \<noteq> [] \<Longrightarrow> g \<in> set gs \<Longrightarrow> g \<in> set (butlast gs) \<or> g = last gs"
  by (metis Un_iff append_butlast_last_id empty_iff insert_iff list.set(1) list.set(2) set_append)

lemma butlast_unavailable_ok:
  "\<forall>g\<in>set gs. unavailable_ok g \<Longrightarrow> g \<in> set (butlast gs) \<Longrightarrow> unavailable_ok g"
  by (meson in_set_butlastD)

lemma unavailable_Call_ok [simp]:
  "unavailable_ok (g\<lparr>Stack := (Stack g)\<lparr>Calls := [unavailable_Call]\<rparr>\<rparr>)"
  by (simp add: unavailable_ok_def)

lemma step_gotRoutineHeader:
  assumes "wf_state s" "state s = gotRoutineHeader"
  shows "step_post s (scan_state s line t)"
proof -
  from assms have ne: "goroutines s \<noteq> []" and empty: "Calls (Stack (last (goroutines s))) = []"
    and bl: "\<forall>g\<in>set (butlast (goroutines s)). Calls (Stack g) \<noteq> []"
    and ok: "\<forall>g\<in>set (goroutines s). unavailable_ok g"
    and nr: "\<not> raceDetectionEnabled s"
    by (auto simp: wf_state_def)
  have okb: "\<forall>g\<in>set (butlast (goroutines s)). unavailable_ok g"
    using ok by (meson in_set_butlastD)
  obtain found e c where pf: "parseFunc zero_Call t = (found, e, c)"
    by (cases "parseFunc zero_Call t")
  then have sp: "SrcPath c = []" using parseFunc_SrcPath[OF pf] by (simp add: zero_Call_def)
  show ?thesis
    using assms(2) ne empty bl ok okb nr pf sp
    by (auto simp: step_post_def scan_state_def scan_func_def cur_def set_cur_def add_call_def
        wf_state_def unavailable_ok_def real_calls_def unavailable_Call_def
        split: option.splits prod.splits bool.splits)
qed


lemma step_gotFunc:
  assumes "wf_state s" "state s = gotFunc"
  shows "step_post s (scan_state s line t)"
proof -
  let ?g = "last (goroutines s)"
  from assms have ne: "goroutines s \<noteq> []" and calls: "Calls (Stack ?g) \<noteq> []"
    and real: "real_calls ?g"
    and bl: "\<forall>g\<in>set (butlast (goroutines s)). Calls (Stack g) \<noteq> []"
    and ok: "\<forall>g\<in>set (goroutines s). unavailable_ok g"
    and nr: "\<not> raceDetectionEnabled s"
    by (auto simp: wf_state_def)
  have okb: "\<forall>g\<in>set (butlast (goroutines s)). unavailable_ok g"
    using ok by (meson in_set_butlastD)
  obtain found e c where pf: "parseFile (last (Calls (Stack ?g))) t = (found, e, c)"
    by (cases "parseFile (last (Calls (Stack ?g))) t")
  have bc: "\<forall>x\<in>set (butlast (Calls (Stack ?g))). SrcPath x \<noteq> ''<unavailable>''"
    using real by (meson in_set_butlastD real_calls_def)
  have lc: "SrcPath (last (Calls (Stack ?g))) \<noteq> ''<unavailable>''"
    using real calls by (simp add: real_calls_def)
  from parseFile_cases[OF pf] have cc: "SrcPath c \<noteq> ''<unavailable>''"
    using lc by auto
  show ?thesis
    using assms(2) ne calls bl okb nr pf bc cc
    by (auto simp: step_post_def scan_state_def scan_file_last_def cur_def set_cur_def
        set_last_call_def wf_state_def unavailable_ok_def real_calls_def
        split: option.splits prod.splits bool.splits)
qed

lemma step_gotCreated:
  assumes "wf_state s" "state s = gotCreated"
  shows "step_post s (scan_state s line t)"
proof -
  let ?g = "last (goroutines s)"
  from assms have ne: "goroutines s \<noteq> []" and calls: "Calls (Stack ?g) \<noteq> []"
    and bl: "\<forall>g\<in>set (butlast (goroutines s)). Calls (Stack g) \<noteq> []"
    and ok: "\<forall>g\<in>set (goroutines s). unavailable_ok g"
    and nr: "\<not> raceDetectionEnabled s"
    by (auto simp: wf_state_def)
  have okb: "\<forall>g\<in>set (butlast (goroutines s)). unavailable_ok g"
    using ok by (meson in_set_butlastD)
  have okl: "unavailable_ok ?g" using ok ne by simp
  show ?thesis
    using assms(2) ne calls bl okb okl nr
    by (auto simp: step_post_def scan_state_def cur_def set_cur_def
        wf_state_def unavailable_ok_def
        split: option.splits prod.splits bool.splits)
qed

lemma step_gotFileCreated:
  assumes "wf_state s" "state s = gotFileCreated"
  shows "step_post s (scan_state s line t)"
  using assms
  by (auto simp: step_post_def scan_state_def wf_state_def)

lemma step_gotUnavail:
  assumes "wf_state s" "state s = gotUnavail"
  shows "step_post s (scan_state s line t)"
proof -
  let ?g = "last (goroutines s)"
  from assms have ne: "goroutines s \<noteq> []" and calls: "Calls (Stack ?g) \<noteq> []"
    and bl: "\<forall>g\<in>set (butlast (goroutines s)). Calls (Stack g) \<noteq> []"
    and ok: "\<forall>g\<in>set (goroutines s). unavailable_ok g"
    and nr: "\<not> raceDetectionEnabled s"
    by (auto simp: wf_state_def)
  have okb: "\<forall>g\<in>set (butlast (goroutines s)). unavailable_ok g"
    using ok by (meson in_set_butlastD)
  have okl: "unavailable_ok ?g" using ok ne by simp
  show ?thesis
    using assms(2) ne calls bl ok okb okl nr
    by (auto simp: step_post_def scan_state_def cur_def set_cur_def set_created_raw_def
        wf_state_def unavailable_ok_def
        split: option.splits prod.splits bool.splits)
qed

lemma step_gotFileFunc:
  assumes "wf_state s" "state s = gotFileFunc"
  shows "step_post s (scan_state s line t)"
proof -
  let ?g = "last (goroutines s)"
  from assms have ne: "goroutines s \<noteq> []" and calls: "Calls (Stack ?g) \<noteq> []"
    and real: "real_calls ?g"
    and bl: "\<forall>g\<in>set (butlast (goroutines s)). Calls (Stack g) \<noteq> []"
    and ok: "\<forall>g\<in>set (goroutines s). unavailable_ok g"
    and nr: "\<not> raceDetectionEnabled s"
    by (auto simp: wf_state_def)
  have okb: "\<forall>g\<in>set (butlast (goroutines s)). unavailable_ok g"
    using ok by (meson in_set_butlastD)
  have okl: "unavailable_ok ?g" using ok ne by simp
  have rc: "\<forall>x\<in>set (Calls (Stack ?g)). SrcPath x \<noteq> ''<unavailable>''"
    using real by (simp add: real_calls_def)
  obtain found e c where pf: "parseFunc zero_Call t = (found, e, c)"
    by (cases "parseFunc zero_Call t")
  then have sp: "SrcPath c = []" using parseFunc_SrcPath[OF pf] by (simp add: zero_Call_def)
  show ?thesis
    using assms(2) ne calls bl ok okb okl rc nr pf sp
    by (auto simp: step_post_def scan_state_def scan_func_def cur_def set_cur_def add_call_def
        set_created_raw_def wf_state_def unavailable_ok_def real_calls_def
        split: option.splits prod.splits bool.splits)
qed

lemma step_scan_state:
  assumes "wf_state s"
  shows "step_post s (scan_state s line t)"
proof (cases "state s")
  case normal
  then show ?thesis using step_header[OF assms, of line t] by (simp add: scan_state_def)
next
  case betweenRoutine
  then show ?thesis using step_header[OF assms, of line t] by (simp add: scan_state_def)
next
  case gotRoutineHeader
  then show ?thesis using assms by (rule step_gotRoutineHeader[rotated])
next
  case gotFunc
  then show ?thesis using assms by (rule step_gotFunc[rotated])
next
  case gotCreated
  then show ?thesis using assms by (rule step_gotCreated[rotated])
next
  case gotFileFunc
  then show ?thesis using assms by (rule step_gotFileFunc[rotated])
next
  case gotFileCreated
  then show ?thesis using assms by (rule step_gotFileCreated[rotated])
next
  case gotUnavail
  then show ?thesis using assms by (rule step_gotUnavail[rotated])
qed (use assms in \<open>simp_all add: wf_state_def\<close>)

lemma step_scan:
  assumes "wf_state s"
  shows "step_post s (scan s line)"
proof -
  have a: "step_post s (Some (line, None, s))"
    using assms by (simp add: step_post_def wf_state_def)
  have b: "step_post s (Some ([], Some e, s\<lparr>state := normal, prefix_str := []\<rparr>))" for e
    using assms by (simp add: step_post_def wf_state_def)
  show ?thesis
    using a b step_scan_state[OF assms] by (simp add: scan_def Let_def)
qed


lemma map_butlast_last: "gs \<noteq> [] \<Longrightarrow> map f (butlast gs) @ [f (last gs)] = map f gs"
  by (induction gs) auto

lemma extends_refl: "extends gs gs"
  by (simp add: extends_def prefixeq_butlast)

lemma extends_same_last:
  assumes "gs \<noteq> []" "ID g' = ID (last gs)"
  shows "extends gs (butlast gs @ [g'])"
proof -
  have "map ID gs = map ID (butlast gs) @ [ID g']"
    using assms map_butlast_last[of gs ID] by simp
  then show ?thesis using assms(1) by (simp add: extends_def)
qed

lemma extends_snoc: "extends gs (gs @ [g])"
proof -
  have "prefix (butlast gs) (gs @ [g])"
    by (meson prefixeq_butlast prefix_order.trans prefixI)
  then show ?thesis by (simp add: extends_def)
qed


lemma prefix_butlast_mono:
  assumes "prefix xs ys" "length xs < length ys"
  shows "prefix xs (butlast ys)"
proof -
  from assms obtain zs where ys: "ys = xs @ zs" and "zs \<noteq> []" by (auto simp: prefix_def)
  then have "butlast ys = xs @ butlast zs" by (simp add: butlast_append)
  then show ?thesis by simp
qed

lemma extends_trans:
  assumes "extends a b" "extends b c"
  shows "extends a c"
proof -
  have len: "length a \<le> length c" using assms by (simp add: extends_def)
  have ids: "prefix (map ID a) (map ID c)"
    using assms by (meson extends_def prefix_order.trans)
  have "prefix (butlast a) (butlast b)"
  proof (cases "a = []")
    case True
    then show ?thesis by simp
  next
    case False
    then have "length (butlast a) < length b" using assms(1) by (cases a) (auto simp: extends_def)
    then show ?thesis using assms(1) by (simp add: extends_def prefix_butlast_mono)
  qed
  then have "prefix (butlast a) c"
    using assms(2) by (meson extends_def prefix_order.trans)
  then show ?thesis using len ids by (simp add: extends_def)
qed

lemma step_post_extends:
  assumes "step_post s (Some (out, e, s'))"
  shows "extends (goroutines s) (goroutines s')"
  using assms extends_refl extends_same_last extends_snoc
  by (auto simp: step_post_def)

lemma step_post_error_same:
  assumes "step_post s (Some (out, Some e, s'))"
  shows "butlast (goroutines s') = butlast (goroutines s) \<and>
         map ID (goroutines s') = map ID (goroutines s)"
proof -
  from assms consider "goroutines s' = goroutines s"
    | g' where "goroutines s \<noteq> []" "goroutines s' = butlast (goroutines s) @ [g']"
        "ID g' = ID (last (goroutines s))"
    by (auto simp: step_post_def)
  then show ?thesis
  proof cases
    case 1
    then show ?thesis by simp
  next
    case 2
    then show ?thesis using map_butlast_last[of "goroutines s" ID] by simp
  qed
qed

lemma scan_total:
  assumes "wf_state s"
  obtains out e s' where "scan s line = Some (out, e, s')" "step_post s (Some (out, e, s'))"
  using step_scan[OF assms, of line]
  by (cases "scan s line") (auto simp: step_post_def)

lemma loop_post:
  assumes "wf_state s"
  shows "\<exists>out' e s'. parseDump_loop s ls out = Some (out', e, s') \<and>
           (e = None \<longrightarrow> wf_state s') \<and>
           (\<forall>g\<in>set (goroutines s'). unavailable_ok g) \<and>
           (\<forall>g\<in>set (butlast (goroutines s')). Calls (Stack g) \<noteq> []) \<and>
           extends (goroutines s) (goroutines s')"
  using assms
proof (induction ls arbitrary: s out)
  case Nil
  then show ?case by (simp add: extends_refl wf_state_def)
next
  case (Cons l ls)
  from scan_total[OF Cons.prems, of l] obtain o1 e1 s1 where
    sc: "scan s l = Some (o1, e1, s1)" and sp: "step_post s (Some (o1, e1, s1))" by blast
  have ext1: "extends (goroutines s) (goroutines s1)" using sp by (rule step_post_extends)
  have ok1: "\<forall>g\<in>set (goroutines s1). unavailable_ok g" using sp by (simp add: step_post_def)
  show ?case
  proof (cases e1)
    case None
    then have wf1: "wf_state s1" using sp by (simp add: step_post_def)
    from Cons.IH[OF wf1, of "if o1 \<noteq> [] then out @ o1 else out"] obtain out' e s' where
      r: "parseDump_loop s1 ls (if o1 \<noteq> [] then out @ o1 else out) = Some (out', e, s')"
      and p: "e = None \<longrightarrow> wf_state s'" "\<forall>g\<in>set (goroutines s'). unavailable_ok g"
        "\<forall>g\<in>set (butlast (goroutines s')). Calls (Stack g) \<noteq> []"
        "extends (goroutines s1) (goroutines s')"
      by blast
    have "parseDump_loop s (l # ls) out = Some (out', e, s')"
      using sc None r by (simp add: Let_def)
    moreover have "extends (goroutines s) (goroutines s')"
      using ext1 p(4) by (rule extends_trans)
    ultimately show ?thesis using p by blast
  next
    case (Some err)
    have same: "butlast (goroutines s1) = butlast (goroutines s)"
      using sp Some step_post_error_same by blast
    have "\<forall>g\<in>set (butlast (goroutines s)). Calls (Stack g) \<noteq> []"
      using Cons.prems by (simp add: wf_state_def)
    then have bl: "\<forall>g\<in>set (butlast (goroutines s1)). Calls (Stack g) \<noteq> []"
      using same by simp
    have "parseDump_loop s (l # ls) out = Some (if o1 \<noteq> [] then out @ o1 else out, Some err, s1)"
      using sc Some by (simp add: Let_def)
    then show ?thesis using Some ok1 bl ext1 by blast
  qed
qed

lemma wf_initial: "wf_state initial_state"
  by (simp add: wf_state_def initial_state_def)

lemma loop_append:
  "parseDump_loop s xs out = Some (out1, None, s1) \<Longrightarrow>
   parseDump_loop s (xs @ ys) out = parseDump_loop s1 ys out1"
  by (induction xs arbitrary: s out) (auto simp: Let_def split: option.splits prod.splits)

section \<open>The calls of the goroutines returned\<close>

text \<open>
  C7, as stated, fails: a header that is the last line of the input gives a goroutine
  with no call at all, and no marker of an unavailable stack was seen.
\<close>

theorem header_without_calls:
  "parseDump (dump_text lone_header) None =
     Some ([], [new_goroutine initial_state 1 ''running''], None) \<and>
   Calls (Stack (new_goroutine initial_state 1 ''running'')) = []"
  using lone_header_parse by simp

lemma all_have_calls:
  assumes "wf_state s" "state s \<noteq> gotRoutineHeader"
  shows "\<forall>g\<in>set (goroutines s). Calls (Stack g) \<noteq> []"
proof
  fix g assume g: "g \<in> set (goroutines s)"
  then have ne: "goroutines s \<noteq> []" by auto
  have l: "Calls (Stack (last (goroutines s))) \<noteq> []"
    using assms ne by (cases "state s") (auto simp: wf_state_def)
  have b: "\<forall>g\<in>set (butlast (goroutines s)). Calls (Stack g) \<noteq> []"
    using assms(1) by (simp add: wf_state_def)
  from in_set_butlast_last[OF ne g] show "Calls (Stack g) \<noteq> []" using l b by auto
qed

lemma parseDump_result:
  "\<exists>out e s'. parseDump_loop initial_state (fst (scanner_run data)) [] = Some (out, e, s') \<and>
     parseDump data rerr =
       Some (out, goroutines s', case e of Some x \<Rightarrow> Some x | None \<Rightarrow> map_option StreamError rerr) \<and>
     (e = None \<longrightarrow> wf_state s') \<and>
     (\<forall>g\<in>set (goroutines s'). unavailable_ok g) \<and>
     (\<forall>g\<in>set (butlast (goroutines s')). Calls (Stack g) \<noteq> [])"
proof -
  obtain toks serr where sr: "scanner_run data = (toks, serr)" by (cases "scanner_run data")
  have serr: "serr = None" using scanner_run_no_error[of data] sr by simp
  from loop_post[OF wf_initial, of toks "[]"] obtain out e s' where
    l: "parseDump_loop initial_state toks [] = Some (out, e, s')"
    and p: "e = None \<longrightarrow> wf_state s'" "\<forall>g\<in>set (goroutines s'). unavailable_ok g"
      "\<forall>g\<in>set (butlast (goroutines s')). Calls (Stack g) \<noteq> []"
    by blast
  have "parseDump data rerr =
       Some (out, goroutines s', case e of Some x \<Rightarrow> Some x | None \<Rightarrow> map_option StreamError rerr)"
    using sr serr l by (simp add: parseDump_def split: option.splits)
  then show ?thesis using l p sr by auto
qed

lemma scanner_run_dump_text:
  assumes "\<forall>l\<in>set ls. NL \<notin> set l \<and> length l < MaxScanTokenSize"
  shows "scanner_run (dump_text ls) = (with_eol ls, None)"
proof -
  have "scanner_run (concat (map (\<lambda>l. l @ [NL]) ls) @ []) =
          (map (\<lambda>l. l @ [NL]) ls @ (if [] = ([]::string) then [] else [[]]), None)"
    using assms by (intro scanner_run_lines) simp_all
  then show ?thesis by (simp add: dump_text_def with_eol_def)
qed

lemma find_gopath_keeps:
  "find_gopath fs c parts ls = Some c' \<Longrightarrow> Goroutines c' = Goroutines c"
  by (induction ls) (auto simp: Let_def split: if_splits)

lemma find_root_keeps:
  "find_root fs c f = Some c' \<Longrightarrow> Goroutines c' = Goroutines c"
  by (auto simp: find_root_def Let_def split: if_splits dest: find_gopath_keeps)

lemma findRoots_loop_keeps:
  "findRoots_loop fs c files = Some c' \<Longrightarrow> Goroutines c' = Goroutines c"
  by (induction files arbitrary: c) (auto split: option.splits dest: find_root_keeps)

lemma findRoots_keeps:
  "findRoots fs c = Some c' \<Longrightarrow> Goroutines c' = Goroutines c"
  using findRoots_loop_keeps[of fs "c\<lparr>GOPATHs := []\<rparr>"] by (simp add: findRoots_def)

lemma loop_extends:
  assumes "parseDump_loop initial_state xs [] = Some (o1, None, s1)"
    and "parseDump_loop initial_state (xs @ ys) [] = Some (o2, e2, s2)"
  shows "extends (goroutines s1) (goroutines s2)"
proof -
  from loop_post[OF wf_initial, of xs "[]"] assms(1) have wf1: "wf_state s1" by auto
  have "parseDump_loop s1 ys o1 = Some (o2, e2, s2)"
    using loop_append[OF assms(1), of ys] assms(2) by simp
  then show ?thesis using loop_post[OF wf1, of ys o1] by auto
qed

lemma scan_stripped:
  assumes "HasSuffix line [NL] \<or> state s \<noteq> normal" "indented s line"
  shows "scan s line = scan_state s line (stripped s line)"
  using assms by (auto simp: scan_def stripped_def indented_def Let_def)

lemma scan_cases:
  "scan s line = Some (line, None, s) \<or>
   scan s line = Some ([], Some (InconsistentIndentation (chomp line) (prefix_str s)),
                       s\<lparr>state := normal, prefix_str := []\<rparr>) \<or>
   scan s line = scan_state s line (stripped s line)"
  by (auto simp: scan_def stripped_def Let_def)

lemma set_last_call_same: "Calls (Stack g) \<noteq> [] \<Longrightarrow> set_last_call g (last (Calls (Stack g))) = g"
  by (simp add: set_last_call_def)

lemma set_cur_same: "goroutines s \<noteq> [] \<Longrightarrow> set_cur s (last (goroutines s)) = s"
  by (simp add: set_cur_def)

lemma map_calls_set_cur:
  assumes "goroutines s \<noteq> []" "Calls (Stack g') = Calls (Stack (last (goroutines s)))"
  shows "map (\<lambda>g. Calls (Stack g)) (goroutines (set_cur s g')) = map (\<lambda>g. Calls (Stack g)) (goroutines s)"
  using assms map_butlast_last[of "goroutines s" "\<lambda>g. Calls (Stack g)"] by (simp add: set_cur_def)

lemma header_frame:
  assumes "\<not> raceDetectionEnabled s" "scan_header s l t = Some (o1, e, s')"
  shows "e = None \<and>
         ((goroutines s' = goroutines s \<and> state s' = normal) \<or>
          (state s' = gotRoutineHeader \<and> (\<exists>g. goroutines s' = goroutines s @ [g])))"
  using assms
  by (auto simp: scan_header_def scan_no_header_def split: option.splits prod.splits bool.splits)

lemma frozen_state_step:
  assumes "wf_state s" "frozen (state s)" "scan_state s l t = Some (o1, e, s')"
  shows "e = None \<and>
         ((goroutines s' = goroutines s \<and> frozen (state s')) \<or>
          (state s' = gotRoutineHeader \<and> (\<exists>g. goroutines s' = goroutines s @ [g])))"
proof -
  have nr: "\<not> raceDetectionEnabled s" using assms(1) by (simp add: wf_state_def)
  from assms(2) consider "state s = normal" | "state s = betweenRoutine" | "state s = gotFileCreated"
    by (auto simp: frozen_def)
  then show ?thesis
  proof cases
    case 1
    then have "scan_header s l t = Some (o1, e, s')" using assms(3) by (simp add: scan_state_def)
    from header_frame[OF nr this] show ?thesis by (auto simp: frozen_def)
  next
    case 2
    then have "scan_header s l t = Some (o1, e, s')" using assms(3) by (simp add: scan_state_def)
    from header_frame[OF nr this] show ?thesis by (auto simp: frozen_def)
  next
    case 3
    then show ?thesis using assms(3) by (auto simp: scan_state_def frozen_def split: if_splits)
  qed
qed

lemma frozen_step:
  assumes "wf_state s" "frozen (state s)" "scan s l = Some (o1, e, s')"
  shows "(goroutines s' = goroutines s \<and> (e = None \<longrightarrow> frozen (state s'))) \<or>
         (e = None \<and> state s' = gotRoutineHeader \<and> (\<exists>g. goroutines s' = goroutines s @ [g]))"
proof -
  from scan_cases[of s l] consider
      "scan s l = Some (l, None, s)"
    | "scan s l = Some ([], Some (InconsistentIndentation (chomp l) (prefix_str s)),
                       s\<lparr>state := normal, prefix_str := []\<rparr>)"
    | "scan s l = scan_state s l (stripped s l)" by blast
  then show ?thesis
  proof cases
    case 1
    then show ?thesis using assms(2,3) by auto
  next
    case 2
    then show ?thesis using assms(3) by auto
  next
    case 3
    then have "scan_state s l (stripped s l) = Some (o1, e, s')" using assms(3) by simp
    from frozen_state_step[OF assms(1,2) this] show ?thesis by auto
  qed
qed

lemma calls_state_step:
  assumes "wf_state s" "state s = gotUnavail \<or> state s = gotCreated"
    and "scan_state s l t = Some (o1, e, s')"
  shows "map (\<lambda>g. Calls (Stack g)) (goroutines s') = map (\<lambda>g. Calls (Stack g)) (goroutines s) \<and>
         (e = None \<longrightarrow> calls_done (state s'))"
proof -
  have ne: "goroutines s \<noteq> []" using assms(1,2) by (auto simp: wf_state_def)
  have k: "map (\<lambda>g. Calls (Stack g)) (goroutines (set_cur s g')) = map (\<lambda>g. Calls (Stack g)) (goroutines s)"
    if "Calls (Stack g') = Calls (Stack (last (goroutines s)))" for g'
    using ne that by (rule map_calls_set_cur)
  from assms(2) show ?thesis
  proof
    assume st: "state s = gotUnavail"
    show ?thesis
      using assms(3) st ne k[of "set_created_raw (last (goroutines s)) r" for r]
      by (auto simp: scan_state_def cur_def calls_done_def frozen_def set_created_raw_def
          split: if_splits option.splits)
  next
    assume st: "state s = gotCreated"
    show ?thesis
      using assms(3) st ne k[of "(last (goroutines s))\<lparr>CreatedBy := c\<rparr>" for c]
      by (auto simp: scan_state_def cur_def calls_done_def frozen_def
          split: if_splits option.splits prod.splits bool.splits)
  qed
qed

lemma calls_step:
  assumes "wf_state s" "state s = gotUnavail \<or> state s = gotCreated"
    and "scan s l = Some (o1, e, s')"
  shows "map (\<lambda>g. Calls (Stack g)) (goroutines s') = map (\<lambda>g. Calls (Stack g)) (goroutines s) \<and>
         (e = None \<longrightarrow> calls_done (state s'))"
proof -
  from scan_cases[of s l] consider
      "scan s l = Some (l, None, s)"
    | "scan s l = Some ([], Some (InconsistentIndentation (chomp l) (prefix_str s)),
                       s\<lparr>state := normal, prefix_str := []\<rparr>)"
    | "scan s l = scan_state s l (stripped s l)" by blast
  then show ?thesis
  proof cases
    case 1
    then show ?thesis using assms(2,3) by (auto simp: calls_done_def)
  next
    case 2
    then show ?thesis using assms(3) by auto
  next
    case 3
    then have "scan_state s l (stripped s l) = Some (o1, e, s')" using assms(3) by simp
    from calls_state_step[OF assms(1,2) this] show ?thesis .
  qed
qed

lemma loop_frozen:
  assumes "wf_state s" "frozen (state s)" "parseDump_loop s ls out = Some (out', e, s')"
  shows "prefix (goroutines s) (goroutines s')"
  using assms
proof (induction ls arbitrary: s out)
  case Nil
  then show ?case by simp
next
  case (Cons l ls)
  from scan_total[OF Cons.prems(1), of l] obtain o1 e1 s1 where
    sc: "scan s l = Some (o1, e1, s1)" and sp: "step_post s (Some (o1, e1, s1))" by blast
  note fr = frozen_step[OF Cons.prems(1,2) sc]
  show ?case
  proof (cases e1)
    case (Some err)
    then have "s' = s1" using Cons.prems(3) sc by (simp add: Let_def)
    then show ?thesis using fr Some by auto
  next
    case None
    then have wf1: "wf_state s1" using sp by (simp add: step_post_def)
    have l1: "parseDump_loop s1 ls (if o1 \<noteq> [] then out @ o1 else out) = Some (out', e, s')"
      using Cons.prems(3) sc None by (simp add: Let_def)
    from fr None consider "goroutines s1 = goroutines s" "frozen (state s1)"
      | g where "goroutines s1 = goroutines s @ [g]" by auto
    then show ?thesis
    proof cases
      case 1
      then show ?thesis using Cons.IH[OF wf1 _ l1] by simp
    next
      case 2
      from loop_post[OF wf1, of ls "if o1 \<noteq> [] then out @ o1 else out"] l1
      have "extends (goroutines s1) (goroutines s')" by auto
      then show ?thesis using 2 by (simp add: extends_def)
    qed
  qed
qed

lemma loop_calls_done:
  assumes "wf_state s" "calls_done (state s)" "parseDump_loop s ls out = Some (out', e, s')"
  shows "prefix (map (\<lambda>g. Calls (Stack g)) (goroutines s)) (map (\<lambda>g. Calls (Stack g)) (goroutines s'))"
  using assms
proof (induction ls arbitrary: s out)
  case Nil
  then show ?case by simp
next
  case (Cons l ls)
  show ?case
  proof (cases "frozen (state s)")
    case True
    from loop_frozen[OF Cons.prems(1) True Cons.prems(3)] show ?thesis by (rule map_mono_prefix)
  next
    case False
    then have st: "state s = gotUnavail \<or> state s = gotCreated"
      using Cons.prems(2) by (simp add: calls_done_def)
    from scan_total[OF Cons.prems(1), of l] obtain o1 e1 s1 where
      sc: "scan s l = Some (o1, e1, s1)" and sp: "step_post s (Some (o1, e1, s1))" by blast
    note cs = calls_step[OF Cons.prems(1) st sc]
    show ?thesis
    proof (cases e1)
      case (Some err)
      then have "s' = s1" using Cons.prems(3) sc by (simp add: Let_def)
      then show ?thesis using cs by simp
    next
      case None
      then have wf1: "wf_state s1" using sp by (simp add: step_post_def)
      have l1: "parseDump_loop s1 ls (if o1 \<noteq> [] then out @ o1 else out) = Some (out', e, s')"
        using Cons.prems(3) sc None by (simp add: Let_def)
      have "calls_done (state s1)" using cs None by simp
      from Cons.IH[OF wf1 this l1] show ?thesis using cs by simp
    qed
  qed
qed

lemma error_state_step:
  assumes "wf_state s" "scan_state s l t = Some (o1, Some e, s')"
  shows "o1 = [] \<and>
         (goroutines s' = goroutines s \<or>
          ((state s = gotRoutineHeader \<or> state s = gotFileFunc) \<and> goroutines s \<noteq> [] \<and>
           (\<exists>c. parseFunc zero_Call t = (True, Some e, c) \<and>
                goroutines s' = butlast (goroutines s) @ [add_call (last (goroutines s)) c])))"
proof (cases "state s")
  case normal
  then have "frozen (state s)" by (simp add: frozen_def)
  from frozen_state_step[OF assms(1) this assms(2)] show ?thesis by simp
next
  case betweenRoutine
  then have "frozen (state s)" by (simp add: frozen_def)
  from frozen_state_step[OF assms(1) this assms(2)] show ?thesis by simp
next
  case gotFileCreated
  then have "frozen (state s)" by (simp add: frozen_def)
  from frozen_state_step[OF assms(1) this assms(2)] show ?thesis by simp
next
  case gotRoutineHeader
  then have ne: "goroutines s \<noteq> []" using assms(1) by (simp add: wf_state_def)
  obtain found e0 c where pf: "parseFunc zero_Call t = (found, e0, c)" by (cases "parseFunc zero_Call t")
  show ?thesis
    using assms(2) gotRoutineHeader ne pf
    by (auto simp: scan_state_def scan_func_def cur_def set_cur_def split: if_splits bool.splits)
next
  case gotFileFunc
  then have ne: "goroutines s \<noteq> []" using assms(1) by (simp add: wf_state_def)
  obtain found e0 c where pf: "parseFunc zero_Call t = (found, e0, c)" by (cases "parseFunc zero_Call t")
  show ?thesis
    using assms(2) gotFileFunc ne pf
    by (auto simp: scan_state_def scan_func_def cur_def set_cur_def
        split: if_splits bool.splits option.splits)
next
  case gotFunc
  let ?g = "last (goroutines s)"
  from gotFunc have ne: "goroutines s \<noteq> []" and calls: "Calls (Stack ?g) \<noteq> []"
    using assms(1) by (simp_all add: wf_state_def)
  obtain found e0 c where pf: "parseFile (last (Calls (Stack ?g))) t = (found, e0, c)"
    by (cases "parseFile (last (Calls (Stack ?g))) t")
  have same: "found \<and> e0 = None \<or> set_cur s (set_last_call ?g c) = s"
    using parseFile_cases[OF pf] set_last_call_same[OF calls] set_cur_same[OF ne] by auto
  show ?thesis
    using assms(2) gotFunc ne calls pf same
    by (auto simp: scan_state_def scan_file_last_def cur_def split: if_splits bool.splits option.splits)
next
  case gotCreated
  let ?g = "last (goroutines s)"
  from gotCreated have ne: "goroutines s \<noteq> []" using assms(1) by (simp add: wf_state_def)
  obtain found e0 c where pf: "parseFile (CreatedBy ?g) t = (found, e0, c)"
    by (cases "parseFile (CreatedBy ?g) t")
  have same: "found \<and> e0 = None \<or> set_cur s (?g\<lparr>CreatedBy := c\<rparr>) = s"
    using parseFile_cases[OF pf] set_cur_same[OF ne] by auto
  show ?thesis
    using assms(2) gotCreated ne pf same
    by (auto simp: scan_state_def cur_def split: if_splits bool.splits option.splits)
next
  case gotUnavail
  then show ?thesis
    using assms(2) by (auto simp: scan_state_def cur_def split: if_splits option.splits)
qed (use assms(1) in \<open>simp_all add: wf_state_def\<close>)

lemma error_step:
  assumes "wf_state s" "scan s l = Some (o1, Some e, s')"
  shows "o1 = [] \<and>
         (goroutines s' = goroutines s \<or>
          ((state s = gotRoutineHeader \<or> state s = gotFileFunc) \<and> goroutines s \<noteq> [] \<and>
           (\<exists>c. parseFunc zero_Call (stripped s l) = (True, Some e, c) \<and>
                goroutines s' = butlast (goroutines s) @ [add_call (last (goroutines s)) c])))"
proof -
  from scan_cases[of s l] consider
      "scan s l = Some (l, None, s)"
    | "scan s l = Some ([], Some (InconsistentIndentation (chomp l) (prefix_str s)),
                       s\<lparr>state := normal, prefix_str := []\<rparr>)"
    | "scan s l = scan_state s l (stripped s l)" by blast
  then show ?thesis
  proof cases
    case 1
    then show ?thesis using assms(2) by simp
  next
    case 2
    then show ?thesis using assms(2) by auto
  next
    case 3
    then have "scan_state s l (stripped s l) = Some (o1, Some e, s')" using assms(2) by simp
    from error_state_step[OF assms(1) this] show ?thesis .
  qed
qed

lemma error_step_calls:
  assumes "wf_state s" "state s \<noteq> gotRoutineHeader" "scan s l = Some (o1, Some e, s')"
  shows "\<forall>g\<in>set (goroutines s'). Calls (Stack g) \<noteq> []"
proof -
  have all: "\<forall>g\<in>set (goroutines s). Calls (Stack g) \<noteq> []"
    using assms(1,2) by (rule all_have_calls)
  from error_step[OF assms(1,3)] consider "goroutines s' = goroutines s"
    | c where "goroutines s' = butlast (goroutines s) @ [add_call (last (goroutines s)) c]"
    by auto
  then show ?thesis
  proof cases
    case 1
    then show ?thesis using all by simp
  next
    case 2
    have "\<forall>g\<in>set (butlast (goroutines s)). Calls (Stack g) \<noteq> []"
      using all by (meson in_set_butlastD)
    then show ?thesis using 2 by (auto simp: add_call_def)
  qed
qed

lemma prefix_map_nth:
  assumes "prefix (map f xs) (map f ys)" "i < length xs"
  shows "i < length ys \<and> f (ys ! i) = f (xs ! i)"
proof -
  from assms(1) obtain zs where zs: "map f ys = map f xs @ zs" by (auto simp: prefix_def)
  then have "length ys = length xs + length zs" by (metis length_append length_map)
  then have i: "i < length ys" using assms(2) by simp
  have "map f ys ! i = map f xs ! i" using zs assms(2) by (simp add: nth_append)
  then show ?thesis using i assms(2) by simp
qed

lemma stripped_same: "prefix_str s' = prefix_str s \<Longrightarrow> stripped s' l = stripped s l"
  by (simp add: stripped_def)

lemma indented_same: "prefix_str s' = prefix_str s \<Longrightarrow> indented s' l = indented s l"
  by (simp add: indented_def)

lemma parseDump_from:
  assumes "scanner_run data = (pre @ xs, serr)"
    and "parseDump_loop initial_state pre [] = Some (out1, None, s1)"
  shows "wf_state s1 \<and>
         (\<exists>out e s'. parseDump_loop s1 xs out1 = Some (out, e, s') \<and>
            parseDump data rerr =
              Some (out, goroutines s',
                    case e of Some x \<Rightarrow> Some x | None \<Rightarrow> map_option StreamError rerr))"
proof -
  have serr: "serr = None" using scanner_run_no_error[of data] assms(1) by simp
  from loop_post[OF wf_initial, of pre "[]"] assms(2) have wf1: "wf_state s1" by auto
  from loop_post[OF wf1, of xs out1] obtain out e s' where
    l: "parseDump_loop s1 xs out1 = Some (out, e, s')" by blast
  have "parseDump_loop initial_state (pre @ xs) [] = Some (out, e, s')"
    using loop_append[OF assms(2), of xs] l by simp
  then have "parseDump data rerr =
              Some (out, goroutines s',
                    case e of Some x \<Rightarrow> Some x | None \<Rightarrow> map_option StreamError rerr)"
    using assms(1) serr by (simp add: parseDump_def split: option.splits)
  then show ?thesis using wf1 l by blast
qed

lemma marker_step:
  assumes "wf_state s" "state s = gotRoutineHeader" "indented s m" "reUnavail (stripped s m)"
  shows "scan s m =
           Some ([], None,
             (set_cur s ((last (goroutines s))
                \<lparr>Stack := (Stack (last (goroutines s)))\<lparr>Calls := [unavailable_Call]\<rparr>\<rparr>))
             \<lparr>state := gotUnavail\<rparr>)"
proof -
  have ne: "goroutines s \<noteq> []" using assms(1,2) by (simp add: wf_state_def)
  have "scan s m = scan_state s m (stripped s m)"
    using assms(2,3) by (intro scan_stripped) simp_all
  then show ?thesis using assms(2,4) ne by (simp add: scan_state_def cur_def)
qed

lemma marker_loop:
  assumes "wf_state s" "state s = gotRoutineHeader" "indented s m" "reUnavail (stripped s m)"
    and "parseDump_loop s (m # rest) out = Some (out', e, s')"
  shows "length (goroutines s) \<le> length (goroutines s') \<and>
         ID (goroutines s' ! (length (goroutines s) - 1)) = ID (last (goroutines s)) \<and>
         Calls (Stack (goroutines s' ! (length (goroutines s) - 1))) = [unavailable_Call]"
proof -
  let ?g = "(last (goroutines s))\<lparr>Stack := (Stack (last (goroutines s)))\<lparr>Calls := [unavailable_Call]\<rparr>\<rparr>"
  let ?s2 = "(set_cur s ?g)\<lparr>state := gotUnavail\<rparr>"
  have ne: "goroutines s \<noteq> []" using assms(1,2) by (simp add: wf_state_def)
  have sc: "scan s m = Some ([], None, ?s2)" using assms(1-4) by (rule marker_step)
  have wf2: "wf_state ?s2" using step_scan[OF assms(1), of m] sc by (simp add: step_post_def)
  have l2: "parseDump_loop ?s2 rest out = Some (out', e, s')" using assms(5) sc by simp
  have cd: "calls_done (state ?s2)" by (simp add: calls_done_def)
  have gs2: "goroutines ?s2 = butlast (goroutines s) @ [?g]" by (simp add: set_cur_def)
  then have len: "length (goroutines ?s2) = length (goroutines s)" using ne by simp
  have k: "length (goroutines s) - 1 < length (goroutines ?s2)" using ne len by simp
  have at: "goroutines ?s2 ! (length (goroutines s) - 1) = ?g"
    using gs2 by (simp add: nth_append)
  from loop_calls_done[OF wf2 cd l2] prefix_map_nth[OF _ k]
  have c: "length (goroutines s) - 1 < length (goroutines s') \<and>
        Calls (Stack (goroutines s' ! (length (goroutines s) - 1))) =
        Calls (Stack (goroutines ?s2 ! (length (goroutines s) - 1)))" by blast
  from loop_post[OF wf2, of rest out] l2 have "extends (goroutines ?s2) (goroutines s')" by auto
  then have "prefix (map ID (goroutines ?s2)) (map ID (goroutines s'))" by (simp add: extends_def)
  from prefix_map_nth[OF this k]
  have i: "ID (goroutines s' ! (length (goroutines s) - 1)) =
           ID (goroutines ?s2 ! (length (goroutines s) - 1))" by simp
  show ?thesis using c i at ne by (simp del: One_nat_def) linarith
qed

lemma created_loop:
  assumes "wf_state s" "state s = gotRoutineHeader" "indented s m" "reUnavail (stripped s m)"
    and "indented s c" "reCreated (stripped s c) = Some r"
    and "indented s fl" "reFile (stripped s fl) = Some (path, num)" "Atoi num = (n, False)"
    and "parseDump_loop s (m # c # fl # rest) out = Some (out', e, s')"
  shows "length (goroutines s) \<le> length (goroutines s') \<and>
         Raw (Call_Func (CreatedBy (goroutines s' ! (length (goroutines s) - 1)))) = r \<and>
         SrcPath (CreatedBy (goroutines s' ! (length (goroutines s) - 1))) = path \<and>
         Line (CreatedBy (goroutines s' ! (length (goroutines s) - 1))) = n"
proof -
  let ?g = "(last (goroutines s))\<lparr>Stack := (Stack (last (goroutines s)))\<lparr>Calls := [unavailable_Call]\<rparr>\<rparr>"
  let ?s2 = "(set_cur s ?g)\<lparr>state := gotUnavail\<rparr>"
  let ?g3 = "set_created_raw ?g r"
  let ?s3 = "(set_cur ?s2 ?g3)\<lparr>state := gotCreated\<rparr>"
  let ?g4 = "?g3\<lparr>CreatedBy := (CreatedBy ?g3)\<lparr>SrcPath := path, Line := n\<rparr>\<rparr>"
  let ?s4 = "(set_cur ?s3 ?g4)\<lparr>state := gotFileCreated\<rparr>"
  have ne: "goroutines s \<noteq> []" using assms(1,2) by (simp add: wf_state_def)
  have sc2: "scan s m = Some ([], None, ?s2)" using assms(1-4) by (rule marker_step)
  have wf2: "wf_state ?s2" using step_scan[OF assms(1), of m] sc2 by (simp add: step_post_def)
  have p2: "prefix_str ?s2 = prefix_str s" by (simp add: set_cur_def)
  have t: "stripped s c \<noteq> []" using assms(6) by (auto simp: reCreated_def)
  have "scan ?s2 c = scan_state ?s2 c (stripped ?s2 c)"
    using assms(5) indented_same[OF p2] by (intro scan_stripped) simp_all
  then have sc3: "scan ?s2 c = Some ([], None, ?s3)"
    using assms(6) t stripped_same[OF p2, of c] by (simp add: scan_state_def cur_def set_cur_def)
  have wf3: "wf_state ?s3" using step_scan[OF wf2, of c] sc3 by (simp add: step_post_def)
  have p3: "prefix_str ?s3 = prefix_str s" by (simp add: set_cur_def)
  have pf: "parseFile (CreatedBy ?g3) (stripped s fl) =
              (True, None, (CreatedBy ?g3)\<lparr>SrcPath := path, Line := n\<rparr>)"
    using assms(8,9) by (simp add: parseFile_def)
  have "scan ?s3 fl = scan_state ?s3 fl (stripped ?s3 fl)"
    using assms(7) indented_same[OF p3] by (intro scan_stripped) simp_all
  then have sc4: "scan ?s3 fl = Some ([], None, ?s4)"
    using pf stripped_same[OF p3, of fl] by (simp add: scan_state_def cur_def set_cur_def)
  have wf4: "wf_state ?s4" using step_scan[OF wf3, of fl] sc4 by (simp add: step_post_def)
  have l4: "parseDump_loop ?s4 rest out = Some (out', e, s')"
    using assms(10) sc2 sc3 sc4 by simp
  have fr: "frozen (state ?s4)" by (simp add: frozen_def)
  have gs4: "goroutines ?s4 = butlast (goroutines s) @ [?g4]" by (simp add: set_cur_def)
  then have len: "length (goroutines ?s4) = length (goroutines s)" using ne by simp
  have k: "length (goroutines s) - 1 < length (goroutines ?s4)" using ne len by simp
  have at: "goroutines ?s4 ! (length (goroutines s) - 1) = ?g4"
    using gs4 by (simp add: nth_append)
  from loop_frozen[OF wf4 fr l4] have pr: "prefix (goroutines ?s4) (goroutines s')" .
  then have "prefix (map (\<lambda>g. g) (goroutines ?s4)) (map (\<lambda>g. g) (goroutines s'))" by simp
  from prefix_map_nth[OF this k]
  have "length (goroutines s) - 1 < length (goroutines s') \<and>
        goroutines s' ! (length (goroutines s) - 1) = ?g4" using at by simp
  then show ?thesis using ne by (simp add: set_created_raw_def del: One_nat_def) linarith
qed

lemma header_only_step:
  assumes "state s = normal \<or> state s = betweenRoutine" "HasSuffix hdr [NL]" "indented s hdr"
    and "reRoutineHeader (stripped s hdr) = Some (ind, num, bd)" "Atoi num = (n, False)"
  shows "scan s hdr =
           Some ([], None, s\<lparr>goroutines := goroutines s @ [new_goroutine s n bd],
                              state := gotRoutineHeader, prefix_str := ind\<rparr>)"
proof -
  have "scan s hdr = scan_state s hdr (stripped s hdr)"
    using assms(2,3) by (intro scan_stripped) simp_all
  then show ?thesis using assms(1,4,5) by (auto simp: scan_state_def scan_header_def)
qed

lemma bad_id_step:
  assumes "state s = normal \<or> state s = betweenRoutine" "\<not> raceDetectionEnabled s"
    and "HasSuffix l [NL]" "indented s l"
    and "reRoutineHeader (stripped s l) = Some (ind, num, bd)" "snd (Atoi num)"
  shows "scan s l = Some (l, None, s\<lparr>state := normal, prefix_str := []\<rparr>)"
proof -
  obtain n where at: "Atoi num = (n, True)" using assms(6) by (cases "Atoi num") auto
  have "scan s l = scan_state s l (stripped s l)"
    using assms(3,4) by (intro scan_stripped) simp_all
  then show ?thesis
    using assms(1,2,5) at by (auto simp: scan_state_def scan_header_def scan_no_header_def)
qed

lemma new_goroutine_ID [simp]: "ID (new_goroutine s n bd) = n"
  by (simp add: new_goroutine_def Let_def split: prod.splits)


text \<open>
  C7, amended. When the scan ends without an error, every goroutine returned has calls,
  unless the last line scanned was a header: then the last goroutine, and only it, has
  none. When the scan ends on an error, every goroutine returned has calls, unless the line
  that failed came right after a header: then the last goroutine has no call, or the one
  call of that line when it was a function call whose arguments failed to parse. A header
  that is the last line of the input gives a last goroutine with its id and no call.
  When the marker of an unavailable stack is recognized after a header, the goroutine of
  that header is returned with exactly one call, whose path is \<open><unavailable>\<close>, with
  line 0, no function and no argument; when a creation line and its file line follow the
  marker, its \<open>CreatedBy\<close> holds the function, path and line they name. No goroutine
  returned holds the path \<open><unavailable>\<close> in any other way.
\<close>

theorem calls_of_returned_goroutines:
  "(parseDump_loop initial_state (fst (scanner_run data)) [] = Some (out, None, s) \<longrightarrow>
      parseDump data rerr = Some (out, goroutines s, map_option StreamError rerr) \<and>
      (\<forall>g\<in>set (butlast (goroutines s)). Calls (Stack g) \<noteq> []) \<and>
      (state s \<noteq> gotRoutineHeader \<longrightarrow> (\<forall>g\<in>set (goroutines s). Calls (Stack g) \<noteq> [])) \<and>
      (state s = gotRoutineHeader \<longrightarrow>
         goroutines s \<noteq> [] \<and> Calls (Stack (last (goroutines s))) = [])) \<and>
   (scanner_run data = (pre @ bad # rest, serr) \<and>
    parseDump_loop initial_state pre [] = Some (out1, None, s1) \<and>
    scan s1 bad = Some (line, Some e, s2) \<longrightarrow>
      parseDump data rerr = Some (out1, goroutines s2, Some e) \<and>
      (\<forall>g\<in>set (butlast (goroutines s2)). Calls (Stack g) \<noteq> []) \<and>
      (state s1 \<noteq> gotRoutineHeader \<longrightarrow> (\<forall>g\<in>set (goroutines s2). Calls (Stack g) \<noteq> [])) \<and>
      (state s1 = gotRoutineHeader \<longrightarrow>
         Calls (Stack (last (goroutines s2))) = [] \<or>
         (\<exists>c. parseFunc zero_Call (stripped s1 bad) = (True, Some e, c) \<and>
              Calls (Stack (last (goroutines s2))) = [c]))) \<and>
   (scanner_run data = (pre @ [hdr], serr) \<and>
    parseDump_loop initial_state pre [] = Some (out1, None, s1) \<and>
    (state s1 = normal \<or> state s1 = betweenRoutine) \<and> HasSuffix hdr [NL] \<and> indented s1 hdr \<and>
    reRoutineHeader (stripped s1 hdr) = Some (ind, hnum, bd) \<and> Atoi hnum = (hid, False) \<longrightarrow>
      (\<exists>g. parseDump data rerr = Some (out1, goroutines s1 @ [g], map_option StreamError rerr) \<and>
           ID g = hid \<and> Calls (Stack g) = [])) \<and>
   (scanner_run data = (pre @ m # rest, serr) \<and>
    parseDump_loop initial_state pre [] = Some (out1, None, s1) \<and>
    state s1 = gotRoutineHeader \<and> indented s1 m \<and> reUnavail (stripped s1 m) \<longrightarrow>
      (\<exists>out' gs err. parseDump data rerr = Some (out', gs, err) \<and>
         length (goroutines s1) \<le> length gs \<and>
         ID (gs ! (length (goroutines s1) - 1)) = ID (last (goroutines s1)) \<and>
         Calls (Stack (gs ! (length (goroutines s1) - 1))) =
           [\<lparr>SrcPath = ''<unavailable>'', Line = 0, Call_Func = \<lparr>Raw = []\<rparr>,
             Call_Args = \<lparr>Values = [], Args_Elided = False\<rparr>\<rparr>])) \<and>
   (scanner_run data = (pre @ m # c # fl # rest', serr) \<and>
    parseDump_loop initial_state pre [] = Some (out1, None, s1) \<and>
    state s1 = gotRoutineHeader \<and> indented s1 m \<and> reUnavail (stripped s1 m) \<and>
    indented s1 c \<and> reCreated (stripped s1 c) = Some r \<and>
    indented s1 fl \<and> reFile (stripped s1 fl) = Some (path, lnum) \<and> Atoi lnum = (ln, False) \<longrightarrow>
      (\<exists>out' gs err. parseDump data rerr = Some (out', gs, err) \<and>
         length (goroutines s1) \<le> length gs \<and>
         Calls (Stack (gs ! (length (goroutines s1) - 1))) =
           [\<lparr>SrcPath = ''<unavailable>'', Line = 0, Call_Func = \<lparr>Raw = []\<rparr>,
             Call_Args = \<lparr>Values = [], Args_Elided = False\<rparr>\<rparr>] \<and>
         Raw (Call_Func (CreatedBy (gs ! (length (goroutines s1) - 1)))) = r \<and>
         SrcPath (CreatedBy (gs ! (length (goroutines s1) - 1))) = path \<and>
         Line (CreatedBy (gs ! (length (goroutines s1) - 1))) = ln)) \<and>
   (parseDump data rerr = Some (out2, gs2, err2) \<longrightarrow>
      (\<forall>g\<in>set (butlast gs2). Calls (Stack g) \<noteq> []) \<and>
      (\<forall>g\<in>set gs2. (\<exists>c\<in>set (Calls (Stack g)). SrcPath c = ''<unavailable>'') \<longrightarrow>
         Calls (Stack g) =
           [\<lparr>SrcPath = ''<unavailable>'', Line = 0, Call_Func = \<lparr>Raw = []\<rparr>,
             Call_Args = \<lparr>Values = [], Args_Elided = False\<rparr>\<rparr>]))"
proof (intro conjI impI)
  assume a: "parseDump_loop initial_state (fst (scanner_run data)) [] = Some (out, None, s)"
  from parseDump_result[of data rerr] a
  have pd: "parseDump data rerr = Some (out, goroutines s, map_option StreamError rerr)"
    and wf: "wf_state s" by auto
  show "parseDump data rerr = Some (out, goroutines s, map_option StreamError rerr)" by (rule pd)
  show "\<forall>g\<in>set (butlast (goroutines s)). Calls (Stack g) \<noteq> []"
    using wf by (simp add: wf_state_def)
  show "\<forall>g\<in>set (goroutines s). Calls (Stack g) \<noteq> []" if "state s \<noteq> gotRoutineHeader"
    using wf that by (rule all_have_calls)
  show "goroutines s \<noteq> []" "Calls (Stack (last (goroutines s))) = []" if "state s = gotRoutineHeader"
    using wf that by (simp_all add: wf_state_def)
next
  assume a: "scanner_run data = (pre @ bad # rest, serr) \<and>
    parseDump_loop initial_state pre [] = Some (out1, None, s1) \<and>
    scan s1 bad = Some (line, Some e, s2)"
  from parseDump_from[of data pre "bad # rest" serr out1 s1 rerr] a obtain out' e' s' where
    wf1: "wf_state s1" and l: "parseDump_loop s1 (bad # rest) out1 = Some (out', e', s')"
    and pd: "parseDump data rerr =
              Some (out', goroutines s', case e' of Some x \<Rightarrow> Some x | None \<Rightarrow> map_option StreamError rerr)"
    by blast
  from a have sc: "scan s1 bad = Some (line, Some e, s2)" by simp
  note es = error_step[OF wf1 sc]
  have "out' = out1 \<and> e' = Some e \<and> s' = s2" using l sc es by simp
  then show "parseDump data rerr = Some (out1, goroutines s2, Some e)" using pd by simp
  have "butlast (goroutines s2) = butlast (goroutines s1)" using es by auto
  then show "\<forall>g\<in>set (butlast (goroutines s2)). Calls (Stack g) \<noteq> []"
    using wf1 by (simp add: wf_state_def)
  show "\<forall>g\<in>set (goroutines s2). Calls (Stack g) \<noteq> []" if "state s1 \<noteq> gotRoutineHeader"
    using wf1 that sc by (rule error_step_calls)
  show "Calls (Stack (last (goroutines s2))) = [] \<or>
         (\<exists>c. parseFunc zero_Call (stripped s1 bad) = (True, Some e, c) \<and>
              Calls (Stack (last (goroutines s2))) = [c])" if st: "state s1 = gotRoutineHeader"
  proof -
    have "Calls (Stack (last (goroutines s1))) = []" using wf1 st by (simp add: wf_state_def)
    then show ?thesis using es by (auto simp: add_call_def)
  qed
next
  assume a: "scanner_run data = (pre @ [hdr], serr) \<and>
    parseDump_loop initial_state pre [] = Some (out1, None, s1) \<and>
    (state s1 = normal \<or> state s1 = betweenRoutine) \<and> HasSuffix hdr [NL] \<and> indented s1 hdr \<and>
    reRoutineHeader (stripped s1 hdr) = Some (ind, hnum, bd) \<and> Atoi hnum = (hid, False)"
  from parseDump_from[of data pre "[hdr]" serr out1 s1 rerr] a obtain out' e' s' where
    l: "parseDump_loop s1 [hdr] out1 = Some (out', e', s')"
    and pd: "parseDump data rerr =
              Some (out', goroutines s', case e' of Some x \<Rightarrow> Some x | None \<Rightarrow> map_option StreamError rerr)"
    by blast
  have "scan s1 hdr =
           Some ([], None, s1\<lparr>goroutines := goroutines s1 @ [new_goroutine s1 hid bd],
                              state := gotRoutineHeader, prefix_str := ind\<rparr>)"
    using a by (intro header_only_step) blast+
  then have "out' = out1 \<and> e' = None \<and> goroutines s' = goroutines s1 @ [new_goroutine s1 hid bd]"
    using l by auto
  then have "parseDump data rerr =
               Some (out1, goroutines s1 @ [new_goroutine s1 hid bd], map_option StreamError rerr)"
    using pd by simp
  then show "\<exists>g. parseDump data rerr = Some (out1, goroutines s1 @ [g], map_option StreamError rerr) \<and>
           ID g = hid \<and> Calls (Stack g) = []"
    by (intro exI[of _ "new_goroutine s1 hid bd"]) simp
next
  assume a: "scanner_run data = (pre @ m # rest, serr) \<and>
    parseDump_loop initial_state pre [] = Some (out1, None, s1) \<and>
    state s1 = gotRoutineHeader \<and> indented s1 m \<and> reUnavail (stripped s1 m)"
  from parseDump_from[of data pre "m # rest" serr out1 s1 rerr] a obtain out' e' s' where
    wf1: "wf_state s1" and l: "parseDump_loop s1 (m # rest) out1 = Some (out', e', s')"
    and pd: "parseDump data rerr =
              Some (out', goroutines s', case e' of Some x \<Rightarrow> Some x | None \<Rightarrow> map_option StreamError rerr)"
    by blast
  from marker_loop[OF wf1 _ _ _ l] a
  have "length (goroutines s1) \<le> length (goroutines s') \<and>
         ID (goroutines s' ! (length (goroutines s1) - 1)) = ID (last (goroutines s1)) \<and>
         Calls (Stack (goroutines s' ! (length (goroutines s1) - 1))) = [unavailable_Call]" by blast
  then show "\<exists>out' gs err. parseDump data rerr = Some (out', gs, err) \<and>
         length (goroutines s1) \<le> length gs \<and>
         ID (gs ! (length (goroutines s1) - 1)) = ID (last (goroutines s1)) \<and>
         Calls (Stack (gs ! (length (goroutines s1) - 1))) =
           [\<lparr>SrcPath = ''<unavailable>'', Line = 0, Call_Func = \<lparr>Raw = []\<rparr>,
             Call_Args = \<lparr>Values = [], Args_Elided = False\<rparr>\<rparr>]"
    using pd by (simp add: unavailable_Call_def zero_Call_def)
next
  assume a: "scanner_run data = (pre @ m # c # fl # rest', serr) \<and>
    parseDump_loop initial_state pre [] = Some (out1, None, s1) \<and>
    state s1 = gotRoutineHeader \<and> indented s1 m \<and> reUnavail (stripped s1 m) \<and>
    indented s1 c \<and> reCreated (stripped s1 c) = Some r \<and>
    indented s1 fl \<and> reFile (stripped s1 fl) = Some (path, lnum) \<and> Atoi lnum = (ln, False)"
  from parseDump_from[of data pre "m # c # fl # rest'" serr out1 s1 rerr] a obtain out' e' s' where
    wf1: "wf_state s1" and l: "parseDump_loop s1 (m # c # fl # rest') out1 = Some (out', e', s')"
    and pd: "parseDump data rerr =
              Some (out', goroutines s', case e' of Some x \<Rightarrow> Some x | None \<Rightarrow> map_option StreamError rerr)"
    by blast
  from marker_loop[OF wf1 _ _ _ l] a
  have 1: "Calls (Stack (goroutines s' ! (length (goroutines s1) - 1))) = [unavailable_Call]" by blast
  from created_loop[OF wf1 _ _ _ _ _ _ _ _ l] a
  have 2: "length (goroutines s1) \<le> length (goroutines s') \<and>
         Raw (Call_Func (CreatedBy (goroutines s' ! (length (goroutines s1) - 1)))) = r \<and>
         SrcPath (CreatedBy (goroutines s' ! (length (goroutines s1) - 1))) = path \<and>
         Line (CreatedBy (goroutines s' ! (length (goroutines s1) - 1))) = ln" by blast
  show "\<exists>out' gs err. parseDump data rerr = Some (out', gs, err) \<and>
         length (goroutines s1) \<le> length gs \<and>
         Calls (Stack (gs ! (length (goroutines s1) - 1))) =
           [\<lparr>SrcPath = ''<unavailable>'', Line = 0, Call_Func = \<lparr>Raw = []\<rparr>,
             Call_Args = \<lparr>Values = [], Args_Elided = False\<rparr>\<rparr>] \<and>
         Raw (Call_Func (CreatedBy (gs ! (length (goroutines s1) - 1)))) = r \<and>
         SrcPath (CreatedBy (gs ! (length (goroutines s1) - 1))) = path \<and>
         Line (CreatedBy (gs ! (length (goroutines s1) - 1))) = ln"
    using pd 1 2 by (simp add: unavailable_Call_def zero_Call_def)
next
  assume a: "parseDump data rerr = Some (out2, gs2, err2)"
  from parseDump_result[of data rerr] obtain o1 e1 s' where
    l: "parseDump_loop initial_state (fst (scanner_run data)) [] = Some (o1, e1, s')"
    and pd: "parseDump data rerr =
       Some (o1, goroutines s', case e1 of Some x \<Rightarrow> Some x | None \<Rightarrow> map_option StreamError rerr)"
    and wf: "e1 = None \<longrightarrow> wf_state s'"
    and ok: "\<forall>g\<in>set (goroutines s'). unavailable_ok g"
    and bl: "\<forall>g\<in>set (butlast (goroutines s')). Calls (Stack g) \<noteq> []"
    by blast
  have gs: "gs2 = goroutines s'" using a pd by simp
  show "\<forall>g\<in>set (butlast gs2). Calls (Stack g) \<noteq> []" using bl gs by simp
  show "\<forall>g\<in>set gs2. (\<exists>c\<in>set (Calls (Stack g)). SrcPath c = ''<unavailable>'') \<longrightarrow>
         Calls (Stack g) =
           [\<lparr>SrcPath = ''<unavailable>'', Line = 0, Call_Func = \<lparr>Raw = []\<rparr>,
             Call_Args = \<lparr>Values = [], Args_Elided = False\<rparr>\<rparr>]"
    using ok gs by (simp add: unavailable_ok_def unavailable_Call_def zero_Call_def)
qed

lemma two_blocks_tokens: "scanner_run (dump_text two_blocks) = (with_eol two_blocks, None)"
  by (rule scanner_run_dump_text) (simp add: two_blocks_def MaxScanTokenSize_def)

lemma two_blocks_loop:
  "parseDump_loop initial_state (with_eol two_blocks) [] = Some ([], None, two_blocks_final)"
  by code_simp

lemma broken_block_tokens:
  "scanner_run (dump_text broken_block) =
     (with_eol [''goroutine 7 [running]:'', ''main.f()'', TAB # ''/a.go:1''] @
      (''main.g(zz)'' @ [NL]) # [''goroutine 8 [running]:'' @ [NL]], None)"
  by (subst scanner_run_dump_text) (simp_all add: broken_block_def MaxScanTokenSize_def with_eol_def)

lemma broken_block_before:
  "parseDump_loop initial_state (with_eol [''goroutine 7 [running]:'', ''main.f()'', TAB # ''/a.go:1'']) [] =
     Some ([], None, broken_before)"
  by code_simp

lemma broken_block_error:
  "scan broken_before (''main.g(zz)'' @ [NL]) = Some ([], Some (FailedToParseInt ''main.g(zz)''), broken_after)"
  by code_simp

lemma two_blocks_split:
  "scanner_run (dump_text two_blocks) =
     (with_eol [''goroutine 1 [running]:'', ''main.f(1, 2, ...)'', TAB # ''/a/b.go:12 +0x1'', [],
                ''goroutine 2 [runnable]:''] @
      (TAB # unavail_text @ [NL]) # (''created by main.h'' @ [NL]) # (TAB # ''/a/d.go:14'' @ [NL]) #
      [[NL]], None)"
  by (subst scanner_run_dump_text)
    (simp_all add: two_blocks_def MaxScanTokenSize_def with_eol_def unavail_text_def)

lemma two_blocks_header_loop:
  "parseDump_loop initial_state
     (with_eol [''goroutine 1 [running]:'', ''main.f(1, 2, ...)'', TAB # ''/a/b.go:12 +0x1'', [],
                ''goroutine 2 [runnable]:'']) [] =
     Some ([], None, two_blocks_header)"
  by code_simp

lemma lone_header_tokens:
  "scanner_run (dump_text lone_header) = ([] @ [''goroutine 1 [running]:'' @ [NL]], None)"
  by (subst scanner_run_dump_text) (simp_all add: lone_header_def MaxScanTokenSize_def with_eol_def)

theorem calls_of_returned_goroutines_witness:
  "parseDump_loop initial_state (fst (scanner_run (dump_text two_blocks))) [] =
     Some ([], None, two_blocks_final) \<and>
   state two_blocks_final \<noteq> gotRoutineHeader \<and>
   parseDump (dump_text two_blocks) None = Some ([], [running_goroutine, unavailable_goroutine], None) \<and>
   list_all (\<lambda>g. Calls (Stack g) \<noteq> []) [running_goroutine, unavailable_goroutine] \<and>
   scan broken_before (''main.g(zz)'' @ [NL]) =
     Some ([], Some (FailedToParseInt ''main.g(zz)''), broken_after) \<and>
   state broken_before \<noteq> gotRoutineHeader \<and>
   parseDump (dump_text broken_block) None =
     Some ([], goroutines broken_after, Some (FailedToParseInt ''main.g(zz)'')) \<and>
   list_all (\<lambda>g. Calls (Stack g) \<noteq> []) (goroutines broken_after) \<and>
   reRoutineHeader (stripped initial_state (''goroutine 1 [running]:'' @ [NL])) =
     Some ([], ''1'', ''running'') \<and>
   Atoi ''1'' = (1, False) \<and>
   (\<exists>g. parseDump (dump_text lone_header) None = Some ([], [g], None) \<and>
        ID g = 1 \<and> Calls (Stack g) = []) \<and>
   parseDump_loop initial_state
     (with_eol [''goroutine 1 [running]:'', ''main.f(1, 2, ...)'', TAB # ''/a/b.go:12 +0x1'', [],
                ''goroutine 2 [runnable]:'']) [] =
     Some ([], None, two_blocks_header) \<and>
   state two_blocks_header = gotRoutineHeader \<and>
   reUnavail (stripped two_blocks_header (TAB # unavail_text @ [NL])) \<and>
   reCreated (stripped two_blocks_header (''created by main.h'' @ [NL])) = Some ''main.h'' \<and>
   reFile (stripped two_blocks_header (TAB # ''/a/d.go:14'' @ [NL])) = Some (''/a/d.go'', ''14'') \<and>
   Atoi ''14'' = (14, False) \<and>
   ID ([running_goroutine, unavailable_goroutine] ! 1) = 2 \<and>
   Calls (Stack ([running_goroutine, unavailable_goroutine] ! 1)) =
     [\<lparr>SrcPath = ''<unavailable>'', Line = 0, Call_Func = \<lparr>Raw = []\<rparr>,
       Call_Args = \<lparr>Values = [], Args_Elided = False\<rparr>\<rparr>] \<and>
   Raw (Call_Func (CreatedBy ([running_goroutine, unavailable_goroutine] ! 1))) = ''main.h'' \<and>
   SrcPath (CreatedBy ([running_goroutine, unavailable_goroutine] ! 1)) = ''/a/d.go'' \<and>
   Line (CreatedBy ([running_goroutine, unavailable_goroutine] ! 1)) = 14"
proof -
  \<comment> \<open>a run that ends without error, after an empty line\<close>
  have lp: "parseDump_loop initial_state (fst (scanner_run (dump_text two_blocks))) [] =
     Some ([], None, two_blocks_final)"
    using two_blocks_tokens two_blocks_loop by simp
  have st: "state two_blocks_final \<noteq> gotRoutineHeader"
    by (simp add: two_blocks_final_def)
  have gf: "goroutines two_blocks_final = [running_goroutine, unavailable_goroutine]"
    by (simp add: two_blocks_final_def)
  note A = calls_of_returned_goroutines[where data = "dump_text two_blocks" and rerr = None
      and out = "[]" and s = two_blocks_final, THEN conjunct1]
  have "parseDump (dump_text two_blocks) None =
          Some ([], goroutines two_blocks_final, map_option StreamError None)"
    using A lp by blast
  then have pd: "parseDump (dump_text two_blocks) None =
              Some ([], [running_goroutine, unavailable_goroutine], None)"
    by (simp add: gf)
  have "\<forall>g\<in>set (goroutines two_blocks_final). Calls (Stack g) \<noteq> []"
    using A lp st by blast
  then have all: "list_all (\<lambda>g. Calls (Stack g) \<noteq> []) [running_goroutine, unavailable_goroutine]"
    using gf by (simp add: list_all_iff)
  \<comment> \<open>a run that ends on an error, after a file line\<close>
  have sb: "state broken_before \<noteq> gotRoutineHeader" by (simp add: broken_before_def)
  note B = calls_of_returned_goroutines[where data = "dump_text broken_block" and rerr = None
      and pre = "with_eol [''goroutine 7 [running]:'', ''main.f()'', TAB # ''/a.go:1'']"
      and bad = "''main.g(zz)'' @ [NL]" and rest = "[''goroutine 8 [running]:'' @ [NL]]"
      and serr = None and ?out1.0 = "[]" and ?s1.0 = broken_before and line = "[]"
      and e = "FailedToParseInt ''main.g(zz)''" and ?s2.0 = broken_after,
      THEN conjunct2, THEN conjunct1]
  have pb: "parseDump (dump_text broken_block) None =
     Some ([], goroutines broken_after, Some (FailedToParseInt ''main.g(zz)''))"
    using B broken_block_tokens broken_block_before broken_block_error by blast
  have "\<forall>g\<in>set (goroutines broken_after). Calls (Stack g) \<noteq> []"
    using B broken_block_tokens broken_block_before broken_block_error sb by blast
  then have allb: "list_all (\<lambda>g. Calls (Stack g) \<noteq> []) (goroutines broken_after)"
    by (simp add: list_all_iff)
  \<comment> \<open>a header that is the last line\<close>
  have h1: "parseDump_loop initial_state [] [] = Some ([], None, initial_state)" by simp
  have h2: "state initial_state = normal \<or> state initial_state = betweenRoutine"
    by (simp add: initial_state_def)
  have h3: "HasSuffix (''goroutine 1 [running]:'' @ [NL]) [NL]" by code_simp
  have h4: "indented initial_state (''goroutine 1 [running]:'' @ [NL])"
    by (simp add: indented_def initial_state_def)
  have h5: "reRoutineHeader (stripped initial_state (''goroutine 1 [running]:'' @ [NL])) =
     Some ([], ''1'', ''running'')" by code_simp
  have h6: "Atoi ''1'' = (1, False)" by code_simp
  note C = calls_of_returned_goroutines[where data = "dump_text lone_header" and rerr = None
      and pre = "[]" and hdr = "''goroutine 1 [running]:'' @ [NL]" and serr = None
      and ?out1.0 = "[]" and ?s1.0 = initial_state and ind = "[]" and hnum = "''1''"
      and bd = "''running''" and hid = 1, THEN conjunct2, THEN conjunct2, THEN conjunct1]
  have "\<exists>g. parseDump (dump_text lone_header) None =
              Some ([], goroutines initial_state @ [g], map_option StreamError None) \<and>
           ID g = 1 \<and> Calls (Stack g) = []"
    using C lone_header_tokens h1 h2 h3 h4 h5 h6 by blast
  then have lone: "\<exists>g. parseDump (dump_text lone_header) None = Some ([], [g], None) \<and>
        ID g = 1 \<and> Calls (Stack g) = []"
    by (simp add: initial_state_def)
  \<comment> \<open>the marker of an unavailable stack, then the creation lines\<close>
  have m1: "state two_blocks_header = gotRoutineHeader" by (simp add: two_blocks_header_def)
  have m2: "indented two_blocks_header (TAB # unavail_text @ [NL])"
    "indented two_blocks_header (''created by main.h'' @ [NL])"
    "indented two_blocks_header (TAB # ''/a/d.go:14'' @ [NL])"
    by (simp_all add: indented_def two_blocks_header_def initial_state_def)
  have m3: "reUnavail (stripped two_blocks_header (TAB # unavail_text @ [NL]))" by code_simp
  have m4: "reCreated (stripped two_blocks_header (''created by main.h'' @ [NL])) = Some ''main.h''"
    by code_simp
  have m5: "reFile (stripped two_blocks_header (TAB # ''/a/d.go:14'' @ [NL])) = Some (''/a/d.go'', ''14'')"
    by code_simp
  have m6: "Atoi ''14'' = (14, False)" by code_simp
  have k: "length (goroutines two_blocks_header) - 1 = 1"
    "ID (last (goroutines two_blocks_header)) = 2"
    by (simp_all add: two_blocks_header_def)
  note DE = calls_of_returned_goroutines[where data = "dump_text two_blocks" and rerr = None
      and pre = "with_eol [''goroutine 1 [running]:'', ''main.f(1, 2, ...)'', TAB # ''/a/b.go:12 +0x1'', [],
                ''goroutine 2 [runnable]:'']"
      and m = "TAB # unavail_text @ [NL]"
      and rest = "[''created by main.h'' @ [NL], TAB # ''/a/d.go:14'' @ [NL], [NL]]"
      and c = "''created by main.h'' @ [NL]" and fl = "TAB # ''/a/d.go:14'' @ [NL]"
      and rest' = "[[NL]]" and serr = None and ?out1.0 = "[]" and ?s1.0 = two_blocks_header
      and r = "''main.h''" and path = "''/a/d.go''" and lnum = "''14''" and ln = 14,
      THEN conjunct2, THEN conjunct2, THEN conjunct2]
  note D = DE[THEN conjunct1] and E = DE[THEN conjunct2, THEN conjunct1]
  have "\<exists>out' gs err. parseDump (dump_text two_blocks) None = Some (out', gs, err) \<and>
         length (goroutines two_blocks_header) \<le> length gs \<and>
         ID (gs ! (length (goroutines two_blocks_header) - 1)) = ID (last (goroutines two_blocks_header)) \<and>
         Calls (Stack (gs ! (length (goroutines two_blocks_header) - 1))) =
           [\<lparr>SrcPath = ''<unavailable>'', Line = 0, Call_Func = \<lparr>Raw = []\<rparr>,
             Call_Args = \<lparr>Values = [], Args_Elided = False\<rparr>\<rparr>]"
    using D two_blocks_split two_blocks_header_loop m1 m2(1) m3 by blast
  then have d: "ID ([running_goroutine, unavailable_goroutine] ! 1) = 2 \<and>
      Calls (Stack ([running_goroutine, unavailable_goroutine] ! 1)) =
        [\<lparr>SrcPath = ''<unavailable>'', Line = 0, Call_Func = \<lparr>Raw = []\<rparr>,
          Call_Args = \<lparr>Values = [], Args_Elided = False\<rparr>\<rparr>]"
    unfolding pd k by blast
  have "\<exists>out' gs err. parseDump (dump_text two_blocks) None = Some (out', gs, err) \<and>
         length (goroutines two_blocks_header) \<le> length gs \<and>
         Calls (Stack (gs ! (length (goroutines two_blocks_header) - 1))) =
           [\<lparr>SrcPath = ''<unavailable>'', Line = 0, Call_Func = \<lparr>Raw = []\<rparr>,
             Call_Args = \<lparr>Values = [], Args_Elided = False\<rparr>\<rparr>] \<and>
         Raw (Call_Func (CreatedBy (gs ! (length (goroutines two_blocks_header) - 1)))) = ''main.h'' \<and>
         SrcPath (CreatedBy (gs ! (length (goroutines two_blocks_header) - 1))) = ''/a/d.go'' \<and>
         Line (CreatedBy (gs ! (length (goroutines two_blocks_header) - 1))) = 14"
    using E two_blocks_split two_blocks_header_loop m1 m2 m3 m4 m5 m6 by blast
  then have e: "Raw (Call_Func (CreatedBy ([running_goroutine, unavailable_goroutine] ! 1))) = ''main.h'' \<and>
      SrcPath (CreatedBy ([running_goroutine, unavailable_goroutine] ! 1)) = ''/a/d.go'' \<and>
      Line (CreatedBy ([running_goroutine, unavailable_goroutine] ! 1)) = 14"
    unfolding pd k by blast
  from lp st pd all broken_block_error sb pb allb h5 h6 lone two_blocks_header_loop m1 m3 m4 m5 m6 d e
  show ?thesis by blast
qed


section \<open>The elision marker\<close>

lemma elided_is_no_call: "reFunc elided = None"
  by code_simp

text \<open>
  C3 asks that \<open>Elided\<close> be set only when no function-call line of the block follows
  the marker. The code stays in the state \<open>gotFileFunc\<close> after the marker (the source
  notes a missing state there): on this input the marker comes after the first call and
  a second call follows it, and the goroutine is returned with both calls and \<open>Elided\<close> set.
\<close>

theorem elided_marker_before_a_call:
  "parseDump (dump_text elided_then_call) None =
     Some ([],
       [\<lparr>Sig = \<lparr>State = ''running'', SleepMin = 0, SleepMax = 0, Locked = False\<rparr>,
         ID = 1, First = True,
         Stack = \<lparr>Calls = [zero_Call\<lparr>SrcPath := ''/a.go'', Line := 1, Call_Func := \<lparr>Raw = ''main.f''\<rparr>\<rparr>,
                           zero_Call\<lparr>SrcPath := ''/b.go'', Line := 2, Call_Func := \<lparr>Raw = ''main.g''\<rparr>\<rparr>],
                  Stack_Elided = True\<rparr>,
         CreatedBy = zero_Call\<rparr>],
       None)"
  by (subst parseDump_dump_text) (simp add: elided_then_call_def MaxScanTokenSize_def, code_simp)

section \<open>Errors and the goroutines found before them\<close>

text \<open>
  C8, as stated, fails in two ways. The error of \<open>Atoi\<close> on a sleep duration out of
  range is dropped: the goroutine is returned with the saturated duration and no error.
  And when \<open>scan\<close> ends with an error after a goroutine was found, \<open>ParseDump\<close> on a
  host without \<open>GOPATH\<close>, current user and \<open>HOME\<close> panics in \<open>getGOPATHs\<close> and returns
  neither the goroutines nor the error.
\<close>

lemma sleepy_header_parse:
  "parseDump (dump_text sleepy_header) None = Some ([], [sleepy_goroutine], None)"
  by (subst parseDump_dump_text) (simp add: sleepy_header_def MaxScanTokenSize_def, code_simp)

lemma broken_block_parse:
  "parseDump (dump_text broken_block) None =
     Some ([], [broken_goroutine [call_at ''main.f'' ''/a.go'' 1, call_at ''main.g'' [] 0]],
           Some (FailedToParseInt ''main.g(zz)''))"
  by (subst parseDump_dump_text) (simp add: broken_block_def MaxScanTokenSize_def, code_simp)

theorem errors_not_surfaced:
  "reMinutes ''99999999999999999999 minutes'' = Some ''99999999999999999999'' \<and>
   Atoi ''99999999999999999999'' = (9223372036854775807, True) \<and>
   parseDump (dump_text sleepy_header) None = Some ([], [sleepy_goroutine], None) \<and>
   parseDump (dump_text broken_block) None =
     Some ([], [broken_goroutine [call_at ''main.f'' ''/a.go'' 1, call_at ''main.g'' [] 0]],
           Some (FailedToParseInt ''main.g(zz)'')) \<and>
   ParseDump bare_host (\<lambda>gs. gs) (\<lambda>r l m g. g) (dump_text broken_block) None False = None"
proof -
  have a: "reMinutes ''99999999999999999999 minutes'' = Some ''99999999999999999999''" by code_simp
  have b: "Atoi ''99999999999999999999'' = (9223372036854775807, True)" by code_simp
  have c: "getGOPATHs bare_host = None" by (simp add: getGOPATHs_def bare_host_def)
  have d: "ParseDump bare_host (\<lambda>gs. gs) (\<lambda>r l m g. g) (dump_text broken_block) None False = None"
    using broken_block_parse c by (simp add: ParseDump_def)
  show ?thesis using a b d sleepy_header_parse broken_block_parse by simp
qed

text \<open>
  C8, amended: \<open>parseDump\<close> always returns. When \<open>scan\<close> returns an error on a
  line, \<open>parseDump\<close> returns that error, what was written before the line, and the
  goroutines found before it as they were, except that a function call whose arguments
  fail to parse is appended, with the arguments read so far, to the last one. When no line
  gives an error the error returned is the reader's. Goroutines found on a prefix of the
  lines stay in front, in the same order, when more lines are scanned. \<open>ParseDump\<close>
  returns the output and the error of \<open>parseDump\<close>: with a nil context when no goroutine
  was found; otherwise with a context that holds the goroutines, as \<open>nameArguments\<close> and
  \<open>updateLocations\<close> leave them, unless \<open>getGOPATHs\<close> panics or, when \<open>guesspaths\<close>
  is set, \<open>findRoots\<close> does. A header whose goroutine id \<open>Atoi\<close> rejects is no error:
  the line is written to the output and the scan goes on from the state \<open>normal\<close>.
\<close>

theorem errors_come_with_goroutines:
  "(\<exists>out gs err. parseDump data rerr = Some (out, gs, err)) \<and>
   (scanner_run data = (pre @ bad # rest, serr) \<and>
    parseDump_loop initial_state pre [] = Some (out1, None, s1) \<and>
    scan s1 bad = Some (line, Some e, s2) \<longrightarrow>
      parseDump data rerr = Some (out1, goroutines s2, Some e) \<and>
      (goroutines s2 = goroutines s1 \<or>
       (goroutines s1 \<noteq> [] \<and>
        (\<exists>c. parseFunc zero_Call (stripped s1 bad) = (True, Some e, c) \<and>
             goroutines s2 = butlast (goroutines s1) @ [add_call (last (goroutines s1)) c])))) \<and>
   (parseDump_loop initial_state (fst (scanner_run data)) [] = Some (out, None, s) \<longrightarrow>
      parseDump data rerr = Some (out, goroutines s, map_option StreamError rerr)) \<and>
   (parseDump_loop initial_state xs [] = Some (o1, None, t1) \<and>
    parseDump_loop initial_state (xs @ ys) [] = Some (o2, e2, t2) \<longrightarrow>
      prefix (butlast (goroutines t1)) (goroutines t2) \<and>
      prefix (map ID (goroutines t1)) (map ID (goroutines t2))) \<and>
   (parseDump data rerr = Some (out', gs, err) \<longrightarrow>
      ParseDump h nameArguments updateLocations data rerr guesspaths =
        (if gs = [] then Some (out', None, err)
         else
           (case getGOPATHs h of
              None \<Rightarrow> None
            | Some gps \<Rightarrow>
                if guesspaths then
                  (case findRoots (isFile h)
                          \<lparr>Goroutines = nameArguments gs, GOROOT = [], GOPATHs = [],
                           localgoroot = Replace_backslash (runtime_GOROOT h), localgopaths = gps\<rparr> of
                     None \<Rightarrow> None
                   | Some c \<Rightarrow>
                       Some (out',
                         Some (c\<lparr>Goroutines :=
                                  map (updateLocations (GOROOT c) (localgoroot c) (GOPATHs c))
                                    (nameArguments gs)\<rparr>),
                         err))
                else
                  Some (out',
                    Some \<lparr>Goroutines = nameArguments gs, GOROOT = [], GOPATHs = [],
                          localgoroot = Replace_backslash (runtime_GOROOT h), localgopaths = gps\<rparr>,
                    err)))) \<and>
   (parseDump_loop initial_state pre' [] = Some (out3, None, s3) \<and>
    (state s3 = normal \<or> state s3 = betweenRoutine) \<and> HasSuffix l [NL] \<and> indented s3 l \<and>
    reRoutineHeader (stripped s3 l) = Some (ind, num, bd) \<and> snd (Atoi num) \<longrightarrow>
      parseDump_loop initial_state (pre' @ [l]) [] =
        Some (out3 @ l, None, s3\<lparr>state := normal, prefix_str := []\<rparr>))"
proof (intro conjI impI)
  show "\<exists>out gs err. parseDump data rerr = Some (out, gs, err)"
    using parseDump_result[of data rerr] by blast
next
  assume a: "scanner_run data = (pre @ bad # rest, serr) \<and>
    parseDump_loop initial_state pre [] = Some (out1, None, s1) \<and>
    scan s1 bad = Some (line, Some e, s2)"
  from parseDump_from[of data pre "bad # rest" serr out1 s1 rerr] a obtain out' e' s' where
    wf1: "wf_state s1" and l: "parseDump_loop s1 (bad # rest) out1 = Some (out', e', s')"
    and pd: "parseDump data rerr =
              Some (out', goroutines s', case e' of Some x \<Rightarrow> Some x | None \<Rightarrow> map_option StreamError rerr)"
    by blast
  from a have sc: "scan s1 bad = Some (line, Some e, s2)" by simp
  note es = error_step[OF wf1 sc]
  have "out' = out1 \<and> e' = Some e \<and> s' = s2" using l sc es by simp
  then show "parseDump data rerr = Some (out1, goroutines s2, Some e)" using pd by simp
  show "goroutines s2 = goroutines s1 \<or>
       (goroutines s1 \<noteq> [] \<and>
        (\<exists>c. parseFunc zero_Call (stripped s1 bad) = (True, Some e, c) \<and>
             goroutines s2 = butlast (goroutines s1) @ [add_call (last (goroutines s1)) c]))"
    using es by blast
next
  assume "parseDump_loop initial_state (fst (scanner_run data)) [] = Some (out, None, s)"
  then show "parseDump data rerr = Some (out, goroutines s, map_option StreamError rerr)"
    using parseDump_result[of data rerr] by auto
next
  assume a: "parseDump_loop initial_state xs [] = Some (o1, None, t1) \<and>
    parseDump_loop initial_state (xs @ ys) [] = Some (o2, e2, t2)"
  then have "extends (goroutines t1) (goroutines t2)" using loop_extends by blast
  then show "prefix (butlast (goroutines t1)) (goroutines t2)"
    and "prefix (map ID (goroutines t1)) (map ID (goroutines t2))"
    by (simp_all add: extends_def)
next
  assume a: "parseDump data rerr = Some (out', gs, err)"
  show "ParseDump h nameArguments updateLocations data rerr guesspaths =
        (if gs = [] then Some (out', None, err)
         else
           (case getGOPATHs h of
              None \<Rightarrow> None
            | Some gps \<Rightarrow>
                if guesspaths then
                  (case findRoots (isFile h)
                          \<lparr>Goroutines = nameArguments gs, GOROOT = [], GOPATHs = [],
                           localgoroot = Replace_backslash (runtime_GOROOT h), localgopaths = gps\<rparr> of
                     None \<Rightarrow> None
                   | Some c \<Rightarrow>
                       Some (out',
                         Some (c\<lparr>Goroutines :=
                                  map (updateLocations (GOROOT c) (localgoroot c) (GOPATHs c))
                                    (nameArguments gs)\<rparr>),
                         err))
                else
                  Some (out',
                    Some \<lparr>Goroutines = nameArguments gs, GOROOT = [], GOPATHs = [],
                          localgoroot = Replace_backslash (runtime_GOROOT h), localgopaths = gps\<rparr>,
                    err)))"
    using a
    by (auto simp: ParseDump_def Let_def split: option.splits dest!: findRoots_keeps)
next
  assume a: "parseDump_loop initial_state pre' [] = Some (out3, None, s3) \<and>
    (state s3 = normal \<or> state s3 = betweenRoutine) \<and> HasSuffix l [NL] \<and> indented s3 l \<and>
    reRoutineHeader (stripped s3 l) = Some (ind, num, bd) \<and> snd (Atoi num)"
  from loop_post[OF wf_initial, of pre' "[]"] a have wf3: "wf_state s3" by auto
  then have nr: "\<not> raceDetectionEnabled s3" by (simp add: wf_state_def)
  have ne: "l \<noteq> []" using a by (auto simp: HasSuffix_def)
  have "scan s3 l = Some (l, None, s3\<lparr>state := normal, prefix_str := []\<rparr>)"
    using a nr by (intro bad_id_step) blast+
  then have "parseDump_loop s3 [l] out3 = Some (out3 @ l, None, s3\<lparr>state := normal, prefix_str := []\<rparr>)"
    using ne by simp
  then show "parseDump_loop initial_state (pre' @ [l]) [] =
        Some (out3 @ l, None, s3\<lparr>state := normal, prefix_str := []\<rparr>)"
    using loop_append[of initial_state pre' "[]" out3 s3 "[l]"] a by simp
qed

lemma huge_id:
  "reRoutineHeader (stripped initial_state huge_id_header) =
     Some ([], ''99999999999999999999'', ''running'') \<and>
   snd (Atoi ''99999999999999999999'') \<and> HasSuffix huge_id_header [NL]"
  by code_simp

theorem errors_come_with_goroutines_witness:
  "scanner_run (dump_text broken_block) =
     (with_eol [''goroutine 7 [running]:'', ''main.f()'', TAB # ''/a.go:1''] @
      (''main.g(zz)'' @ [NL]) # [''goroutine 8 [running]:'' @ [NL]], None) \<and>
   parseDump_loop initial_state (with_eol [''goroutine 7 [running]:'', ''main.f()'', TAB # ''/a.go:1'']) [] =
     Some ([], None, broken_before) \<and>
   scan broken_before (''main.g(zz)'' @ [NL]) =
     Some ([], Some (FailedToParseInt ''main.g(zz)''), broken_after) \<and>
   parseDump (dump_text broken_block) None =
     Some ([], [broken_goroutine [call_at ''main.f'' ''/a.go'' 1, call_at ''main.g'' [] 0]],
           Some (FailedToParseInt ''main.g(zz)'')) \<and>
   goroutines broken_after \<noteq> goroutines broken_before \<and>
   parseFunc zero_Call (stripped broken_before (''main.g(zz)'' @ [NL])) =
     (True, Some (FailedToParseInt ''main.g(zz)''), call_at ''main.g'' [] 0) \<and>
   goroutines broken_after =
     butlast (goroutines broken_before) @
       [add_call (last (goroutines broken_before)) (call_at ''main.g'' [] 0)] \<and>
   getGOPATHs home_host = Some [''/home/u/go''] \<and>
   ParseDump home_host (\<lambda>gs. gs) (\<lambda>r l m g. g) (dump_text broken_block) None False =
     Some ([],
       Some \<lparr>Goroutines = [broken_goroutine [call_at ''main.f'' ''/a.go'' 1, call_at ''main.g'' [] 0]],
             GOROOT = [], GOPATHs = [], localgoroot = [], localgopaths = [''/home/u/go'']\<rparr>,
       Some (FailedToParseInt ''main.g(zz)'')) \<and>
   reRoutineHeader (stripped initial_state huge_id_header) =
     Some ([], ''99999999999999999999'', ''running'') \<and>
   snd (Atoi ''99999999999999999999'') \<and>
   parseDump_loop initial_state [huge_id_header] [] = Some (huge_id_header, None, initial_state)"
proof -
  note t = errors_come_with_goroutines[where data = "dump_text broken_block" and rerr = None
      and pre = "with_eol [''goroutine 7 [running]:'', ''main.f()'', TAB # ''/a.go:1'']"
      and bad = "''main.g(zz)'' @ [NL]" and rest = "[''goroutine 8 [running]:'' @ [NL]]"
      and serr = None and ?out1.0 = "[]" and ?s1.0 = broken_before and line = "[]"
      and e = "FailedToParseInt ''main.g(zz)''" and ?s2.0 = broken_after
      and out' = "[]" and gs = "goroutines broken_after" and err = "Some (FailedToParseInt ''main.g(zz)'')"
      and h = home_host and nameArguments = "\<lambda>gs. gs" and updateLocations = "\<lambda>r l m g. g"
      and guesspaths = False
      and pre' = "[]" and ?out3.0 = "[]" and ?s3.0 = initial_state and l = huge_id_header
      and ind = "[]" and num = "''99999999999999999999''" and bd = "''running''",
      THEN conjunct2]
  note t2 = t[THEN conjunct1]
    and t5 = t[THEN conjunct2, THEN conjunct2, THEN conjunct2, THEN conjunct1]
    and t6 = t[THEN conjunct2, THEN conjunct2, THEN conjunct2, THEN conjunct2]
  have pd: "parseDump (dump_text broken_block) None =
     Some ([], goroutines broken_after, Some (FailedToParseInt ''main.g(zz)''))"
    using t2 broken_block_tokens broken_block_before broken_block_error by blast
  have ga: "goroutines broken_after =
      [broken_goroutine [call_at ''main.f'' ''/a.go'' 1, call_at ''main.g'' [] 0]]"
    by (simp add: broken_after_def initial_state_def)
  have "length (Calls (Stack (last (goroutines broken_after)))) \<noteq>
        length (Calls (Stack (last (goroutines broken_before))))"
    by (simp add: broken_after_def broken_before_def initial_state_def broken_goroutine_def)
  then have ne: "goroutines broken_after \<noteq> goroutines broken_before" by auto
  have "goroutines broken_after = goroutines broken_before \<or>
       (goroutines broken_before \<noteq> [] \<and>
        (\<exists>c. parseFunc zero_Call (stripped broken_before (''main.g(zz)'' @ [NL])) =
               (True, Some (FailedToParseInt ''main.g(zz)''), c) \<and>
             goroutines broken_after =
               butlast (goroutines broken_before) @ [add_call (last (goroutines broken_before)) c]))"
    using t2 broken_block_tokens broken_block_before broken_block_error by blast
  then obtain c where
    c: "parseFunc zero_Call (stripped broken_before (''main.g(zz)'' @ [NL])) =
               (True, Some (FailedToParseInt ''main.g(zz)''), c)"
    and g: "goroutines broken_after =
               butlast (goroutines broken_before) @ [add_call (last (goroutines broken_before)) c]"
    using ne by blast
  have pf: "parseFunc zero_Call (stripped broken_before (''main.g(zz)'' @ [NL])) =
     (True, Some (FailedToParseInt ''main.g(zz)''), call_at ''main.g'' [] 0)"
    by code_simp
  then have "c = call_at ''main.g'' [] 0" using c by simp
  then have g': "goroutines broken_after =
     butlast (goroutines broken_before) @
       [add_call (last (goroutines broken_before)) (call_at ''main.g'' [] 0)]"
    using g by simp
  have gp: "getGOPATHs home_host = Some [''/home/u/go'']"
    by (simp add: getGOPATHs_def home_host_def bare_host_def Replace_backslash_def)
  have "ParseDump home_host (\<lambda>gs. gs) (\<lambda>r l m g. g) (dump_text broken_block) None False =
     Some ([],
       Some \<lparr>Goroutines = goroutines broken_after, GOROOT = [], GOPATHs = [],
             localgoroot = Replace_backslash (runtime_GOROOT home_host),
             localgopaths = [''/home/u/go'']\<rparr>,
       Some (FailedToParseInt ''main.g(zz)''))"
    using t5 pd gp ga by simp
  then have PD: "ParseDump home_host (\<lambda>gs. gs) (\<lambda>r l m g. g) (dump_text broken_block) None False =
     Some ([],
       Some \<lparr>Goroutines = [broken_goroutine [call_at ''main.f'' ''/a.go'' 1, call_at ''main.g'' [] 0]],
             GOROOT = [], GOPATHs = [], localgoroot = [], localgopaths = [''/home/u/go'']\<rparr>,
       Some (FailedToParseInt ''main.g(zz)''))"
    by (simp add: ga home_host_def bare_host_def Replace_backslash_def)
  have i1: "parseDump_loop initial_state [] [] = Some ([], None, initial_state)" by simp
  have i2: "state initial_state = normal \<or> state initial_state = betweenRoutine"
    by (simp add: initial_state_def)
  have i3: "indented initial_state huge_id_header" by (simp add: indented_def initial_state_def)
  have "parseDump_loop initial_state ([] @ [huge_id_header]) [] =
        Some ([] @ huge_id_header, None, initial_state\<lparr>state := normal, prefix_str := []\<rparr>)"
    using t6 i1 i2 i3 huge_id by blast
  then have hl: "parseDump_loop initial_state [huge_id_header] [] =
       Some (huge_id_header, None, initial_state)"
    by (simp add: initial_state_def)
  from broken_block_tokens broken_block_before broken_block_error pd ga ne pf g' gp PD huge_id hl
  show ?thesis by simp
qed


section \<open>Indentation\<close>








section \<open>A well-formed block\<close>

lemma text_line_split: "text_line l \<Longrightarrow> l = butlast l @ [NL] \<and> NL \<notin> set (butlast l) \<and> length (butlast l) < MaxScanTokenSize"
  by (auto simp: text_line_def HasSuffix_def suffix_def)

lemma scanner_run_text_lines:
  assumes "list_all text_line ls"
  shows "scanner_run (concat ls) = (ls, None)"
proof -
  have eq: "map (\<lambda>l. l @ [NL]) (map butlast ls) = ls"
    using assms text_line_split by (induction ls) auto
  have "scanner_run (concat (map (\<lambda>l. l @ [NL]) (map butlast ls)) @ []) =
          (map (\<lambda>l. l @ [NL]) (map butlast ls) @ (if [] = ([]::string) then [] else [[]]), None)"
    using assms text_line_split by (intro scanner_run_lines) (auto simp: list_all_iff)
  then show ?thesis using eq by simp
qed

lemma scan_indented:
  assumes "indented_line p l" "prefix_str s = p"
  shows "scan s l = scan_state s l (line_body p l)"
  using assms
  by (auto simp: scan_def Let_def indented_line_def text_line_def line_body_def HasPrefix_def)

lemma parseFile_found_any:
  assumes "parseFile zero_Call t = (True, None, c0)"
  shows "\<exists>path n. parseFile c t = (True, None, c\<lparr>SrcPath := path, Line := n\<rparr>)"
  using assms
  by (auto simp: parseFile_def split: option.splits prod.splits bool.splits)

lemma func_step:
  assumes "in_block p st (gs @ [g]) s" "st = gotRoutineHeader \<or> st = gotFileFunc"
    and "function_line p f"
  shows "\<exists>s'. scan s f = Some ([], None, s') \<and>
           in_block p gotFunc (gs @ [add_call g (snd (snd (parseFunc zero_Call (line_body p f))))]) s'"
proof -
  let ?t = "line_body p f"
  obtain c where pf: "parseFunc zero_Call ?t = (True, None, c)"
    using assms(3) by (auto simp: function_line_def split: prod.splits)
  then have "reFunc ?t \<noteq> None" by (auto simp: parseFunc_def split: option.splits)
  then have ne: "elided \<noteq> ?t" using elided_is_no_call by auto
  have nu: "\<not> reUnavail ?t" and nc: "reCreated ?t = None"
    using assms(3) by (simp_all add: function_line_def)
  have sc: "scan s f = scan_state s f ?t"
    using assms(1,3) by (intro scan_indented) (simp_all add: function_line_def in_block_def)
  have "scan_state s f ?t = Some ([], None, (set_cur s (add_call g c))\<lparr>state := gotFunc\<rparr>)"
    using assms(1,2) pf ne nu nc
    by (auto simp: scan_state_def scan_func_def cur_def in_block_def)
  then show ?thesis using sc pf assms(1) by (simp add: in_block_def set_cur_def)
qed

lemma set_last_add_call [simp]: "set_last_call (add_call g c) c' = add_call g c'"
  by (simp add: set_last_call_def add_call_def)

lemma file_step:
  assumes "in_block p gotFunc (gs @ [add_call g c]) s" "file_line p fl"
  shows "\<exists>s'. scan s fl = Some ([], None, s') \<and>
           in_block p gotFileFunc (gs @ [add_call g (snd (snd (parseFile c (line_body p fl))))]) s'"
proof -
  let ?t = "line_body p fl"
  obtain c0 where "parseFile zero_Call ?t = (True, None, c0)"
    using assms(2) by (auto simp: file_line_def split: prod.splits)
  from parseFile_found_any[OF this, of c] obtain path n where
    pf: "parseFile c ?t = (True, None, c\<lparr>SrcPath := path, Line := n\<rparr>)" by blast
  have sc: "scan s fl = scan_state s fl ?t"
    using assms by (intro scan_indented) (simp_all add: file_line_def in_block_def)
  have "scan_state s fl ?t =
          Some ([], None, (set_cur s (set_last_call (add_call g c) (c\<lparr>SrcPath := path, Line := n\<rparr>)))
                  \<lparr>state := gotFileFunc\<rparr>)"
    using assms(1) pf
    by (simp add: scan_state_def scan_file_last_def cur_def in_block_def add_call_def)
  then show ?thesis using sc pf assms(1) by (simp add: in_block_def set_cur_def)
qed

lemma pair_step:
  assumes "in_block p st (gs @ [g]) s" "st = gotRoutineHeader \<or> st = gotFileFunc"
    and "function_line p f" "file_line p fl"
  shows "\<exists>s'. parseDump_loop s (f # fl # rest) out = parseDump_loop s' rest out \<and>
           in_block p gotFileFunc (gs @ [add_call g (call_of p (f, fl))]) s'"
proof -
  from func_step[OF assms(1,2,3)] obtain s1 where
    1: "scan s f = Some ([], None, s1)"
    and b1: "in_block p gotFunc (gs @ [add_call g (snd (snd (parseFunc zero_Call (line_body p f))))]) s1"
    by blast
  from file_step[OF b1 assms(4)] obtain s2 where
    2: "scan s1 fl = Some ([], None, s2)"
    and b2: "in_block p gotFileFunc (gs @ [add_call g (call_of p (f, fl))]) s2"
    by (auto simp: call_of_def)
  have "parseDump_loop s (f # fl # rest) out = parseDump_loop s2 rest out"
    using 1 2 by simp
  then show ?thesis using b2 by blast
qed

lemma add_call_calls: "add_call g c = g\<lparr>Stack := (Stack g)\<lparr>Calls := Calls (Stack g) @ [c]\<rparr>\<rparr>"
  by (simp add: add_call_def)

lemma pairs_steps:
  assumes "list_all (\<lambda>(f, fl). function_line p f \<and> file_line p fl) pairs" "pairs \<noteq> []"
    and "in_block p st (gs @ [g]) s" "st = gotRoutineHeader \<or> st = gotFileFunc"
  shows "\<exists>s'. parseDump_loop s (concat (map (\<lambda>(f, fl). [f, fl]) pairs) @ rest) out =
                parseDump_loop s' rest out \<and>
           in_block p gotFileFunc
             (gs @ [g\<lparr>Stack := (Stack g)\<lparr>Calls := Calls (Stack g) @ map (call_of p) pairs\<rparr>\<rparr>]) s'"
  using assms
proof (induction pairs arbitrary: s st g)
  case Nil
  then show ?case by simp
next
  case (Cons pr pairs)
  obtain f fl where pr: "pr = (f, fl)" by (cases pr)
  from Cons.prems(1) pr have fl: "function_line p f" "file_line p fl"
    and rest: "list_all (\<lambda>(f, fl). function_line p f \<and> file_line p fl) pairs" by simp_all
  from pair_step[OF Cons.prems(3,4) fl, of "concat (map (\<lambda>(f, fl). [f, fl]) pairs) @ rest" out]
  obtain s1 where
    1: "parseDump_loop s (f # fl # concat (map (\<lambda>(f, fl). [f, fl]) pairs) @ rest) out =
          parseDump_loop s1 (concat (map (\<lambda>(f, fl). [f, fl]) pairs) @ rest) out"
    and b1: "in_block p gotFileFunc (gs @ [add_call g (call_of p (f, fl))]) s1" by blast
  show ?case
  proof (cases "pairs = []")
    case True
    then show ?thesis using 1 b1 pr by (auto simp: add_call_calls)
  next
    case False
    from Cons.IH[OF rest False b1] obtain s2 where
      2: "parseDump_loop s1 (concat (map (\<lambda>(f, fl). [f, fl]) pairs) @ rest) out =
            parseDump_loop s2 rest out"
      and b2: "in_block p gotFileFunc
             (gs @ [(add_call g (call_of p (f, fl)))
                \<lparr>Stack := (Stack (add_call g (call_of p (f, fl))))
                   \<lparr>Calls := Calls (Stack (add_call g (call_of p (f, fl)))) @ map (call_of p) pairs\<rparr>\<rparr>]) s2"
      by blast
    show ?thesis using 1 2 b2 pr by (auto simp: add_call_calls)
  qed
qed

lemma header_step:
  assumes "header_line p hdr"
  shows "\<exists>s'. scan initial_state hdr = Some ([], None, s') \<and>
           in_block p gotRoutineHeader ([] @ [header_goroutine hdr]) s'"
proof -
  obtain num bd where m: "reRoutineHeader (chomp hdr) = Some (p, num, bd)" and a: "\<not> snd (Atoi num)"
    using assms by (auto simp: header_line_def split: option.splits)
  then obtain n where at: "Atoi num = (n, False)" by (cases "Atoi num") auto
  have t: "HasSuffix hdr [NL]" using assms by (simp add: header_line_def text_line_def)
  have "scan initial_state hdr =
          Some ([], None, initial_state\<lparr>goroutines := goroutines initial_state @
                   [new_goroutine initial_state n bd],
                 state := gotRoutineHeader, prefix_str := p\<rparr>)"
    using t m at by (simp add: scan_def scan_state_def scan_header_def initial_state_def)
  then show ?thesis using m at by (simp add: in_block_def header_goroutine_def initial_state_def)
qed

lemma created_steps:
  assumes "in_block p gotFileFunc (gs @ [g]) s" "CreatedBy g = zero_Call"
    and "created_line p c" "file_line p fl"
  shows "\<exists>s'. parseDump_loop s (c # fl # rest) out = parseDump_loop s' rest out \<and>
           in_block p gotFileCreated (gs @ [g\<lparr>CreatedBy := created_of p (Some (c, fl))\<rparr>]) s'"
proof -
  let ?t = "line_body p c" and ?u = "line_body p fl"
  obtain r where r: "reCreated ?t = Some r" using assms(3) by (auto simp: created_line_def)
  have sc: "scan s c = scan_state s c ?t"
    using assms(1,3) by (intro scan_indented) (simp_all add: created_line_def in_block_def)
  have 1: "scan s c = Some ([], None, (set_cur s (set_created_raw g r))\<lparr>state := gotCreated\<rparr>)"
    using sc assms(1) r by (simp add: scan_state_def cur_def in_block_def)
  let ?s1 = "(set_cur s (set_created_raw g r))\<lparr>state := gotCreated\<rparr>"
  let ?c = "zero_Call\<lparr>Call_Func := \<lparr>Raw = r\<rparr>\<rparr>"
  have cb: "CreatedBy (set_created_raw g r) = ?c"
    using assms(2) by (simp add: set_created_raw_def zero_Call_def)
  obtain c0 where "parseFile zero_Call ?u = (True, None, c0)"
    using assms(4) by (auto simp: file_line_def split: prod.splits)
  from parseFile_found_any[OF this, of ?c] obtain path n where
    pf: "parseFile ?c ?u = (True, None, ?c\<lparr>SrcPath := path, Line := n\<rparr>)" by blast
  have sf: "scan ?s1 fl = scan_state ?s1 fl ?u"
    using assms(1,4) by (intro scan_indented) (simp_all add: file_line_def in_block_def set_cur_def)
  have 2: "scan ?s1 fl =
             Some ([], None, (set_cur ?s1 ((set_created_raw g r)\<lparr>CreatedBy := ?c\<lparr>SrcPath := path, Line := n\<rparr>\<rparr>))
                      \<lparr>state := gotFileCreated\<rparr>)"
    using sf assms(1) pf cb by (simp add: scan_state_def cur_def in_block_def set_cur_def)
  let ?s2 = "(set_cur ?s1 ((set_created_raw g r)\<lparr>CreatedBy := ?c\<lparr>SrcPath := path, Line := n\<rparr>\<rparr>))
                      \<lparr>state := gotFileCreated\<rparr>"
  have co: "created_of p (Some (c, fl)) = ?c\<lparr>SrcPath := path, Line := n\<rparr>"
    using r pf by (simp add: created_of_def)
  have "parseDump_loop s (c # fl # rest) out = parseDump_loop ?s2 rest out"
    using 1 2 by simp
  moreover have "in_block p gotFileCreated (gs @ [g\<lparr>CreatedBy := created_of p (Some (c, fl))\<rparr>]) ?s2"
    using assms(1) co by (simp add: in_block_def set_cur_def set_created_raw_def)
  ultimately show ?thesis by blast
qed

lemma empty_step:
  assumes "state s = gotFileFunc \<or> state s = gotFileCreated" "empty_line e"
  shows "scan s e = Some ([], None, s\<lparr>state := betweenRoutine\<rparr>)"
proof -
  have a: "reCreated [] = None" "elided \<noteq> []" "parseFunc zero_Call [] = (False, None, zero_Call)"
    by (simp_all add: reCreated_def elided_def parseFunc_def reFunc_def)
  have "scan s e = scan_state s e []"
    using assms(2) by (simp add: scan_def empty_line_def text_line_def)
  then show ?thesis using assms(1) a by (auto simp: scan_state_def scan_func_def)
qed

lemma reCreated_nonempty: "reCreated t = Some r \<Longrightarrow> r \<noteq> []"
  by (auto simp: reCreated_def split: if_splits)

lemma created_of_populated: 
  assumes "created_line p c" "file_line p fl"
  shows "created_of p (Some (c, fl)) \<noteq> zero_Call"
proof -
  obtain r where r: "reCreated (line_body p c) = Some r" using assms(1) by (auto simp: created_line_def)
  obtain c0 where "parseFile zero_Call (line_body p fl) = (True, None, c0)"
    using assms(2) by (auto simp: file_line_def split: prod.splits)
  from parseFile_found_any[OF this, of "zero_Call\<lparr>Call_Func := \<lparr>Raw = r\<rparr>\<rparr>"] obtain path n where
    "parseFile (zero_Call\<lparr>Call_Func := \<lparr>Raw = r\<rparr>\<rparr>) (line_body p fl) =
       (True, None, zero_Call\<lparr>Call_Func := \<lparr>Raw = r\<rparr>, SrcPath := path, Line := n\<rparr>)" by auto
  then have "Raw (Call_Func (created_of p (Some (c, fl)))) = r"
    using r by (simp add: created_of_def)
  then show ?thesis using reCreated_nonempty[OF r] by (auto simp: zero_Call_def)
qed

lemma parseArgs_Func: "Raw (Call_Func (snd (parseArgs line c as))) = Raw (Call_Func c)"
  by (induction line c as rule: parseArgs.induct) (auto split: option.splits)

lemma call_of_fields:
  assumes "function_line p f" "file_line p fl"
    and "reFunc (line_body p f) = Some (name, args)" "reFile (line_body p fl) = Some (path, lnum)"
  shows "Raw (Call_Func (call_of p (f, fl))) = name \<and> SrcPath (call_of p (f, fl)) = path \<and>
         Line (call_of p (f, fl)) = fst (Atoi lnum)"
proof -
  let ?c1 = "snd (snd (parseFunc zero_Call (line_body p f)))"
  have c1: "Raw (Call_Func ?c1) = name"
    using assms(3) parseArgs_Func[of "line_body p f" "zero_Call\<lparr>Call_Func := (Call_Func zero_Call)\<lparr>Raw := name\<rparr>\<rparr>"
        "Split_comma_space args"]
    by (simp add: parseFunc_def split: prod.splits)
  have "\<not> snd (Atoi lnum)"
    using assms(2,4) by (auto simp: file_line_def parseFile_def split: prod.splits bool.splits)
  then obtain n where at: "Atoi lnum = (n, False)" by (cases "Atoi lnum") auto
  then have "parseFile ?c1 (line_body p fl) = (True, None, ?c1\<lparr>SrcPath := path, Line := n\<rparr>)"
    using assms(4) by (simp add: parseFile_def)
  then show ?thesis using c1 at by (simp add: call_of_def)
qed

lemma created_of_fields:
  assumes "file_line p cfl"
    and "reCreated (line_body p c) = Some r" "reFile (line_body p cfl) = Some (cpath, cnum)"
  shows "created_of p (Some (c, cfl)) =
           zero_Call\<lparr>Call_Func := \<lparr>Raw = r\<rparr>, SrcPath := cpath, Line := fst (Atoi cnum)\<rparr>"
proof -
  have "\<not> snd (Atoi cnum)"
    using assms(1,3) by (auto simp: file_line_def parseFile_def split: prod.splits bool.splits)
  then obtain n where at: "Atoi cnum = (n, False)" by (cases "Atoi cnum") auto
  then show ?thesis using assms(2,3) by (simp add: created_of_def parseFile_def)
qed


text \<open>
  C2: the input that is one well-formed block gives exactly one goroutine, nothing written
  to the output and no error but the reader's. Its calls are one per pair of a
  function-call line and a file line, in the order of the pairs, each with the function
  name of the first line and the path and line number of the second. Its \<open>CreatedBy\<close>
  is the zero value when the block has no creation lines, and otherwise holds the function
  of the creation line and the path and line number of the file line after it, which is
  never the zero value. Its id and state are those of the header.
\<close>

theorem well_formed_block_parsed:
  assumes "well_formed_block p hdr pairs created e"
  shows "parseDump (concat (block_lines hdr pairs created e)) rerr =
           Some ([],
                 [(header_goroutine hdr)
                    \<lparr>Stack := \<lparr>Calls = map (call_of p) pairs, Stack_Elided = False\<rparr>,
                     CreatedBy := created_of p created\<rparr>],
                 map_option StreamError rerr) \<and>
         length (map (call_of p) pairs) = length pairs \<and>
         (created_of p created \<noteq> zero_Call \<longleftrightarrow> created \<noteq> None) \<and>
         (reRoutineHeader (chomp hdr) = Some (ind, num, bd) \<longrightarrow>
            ID (header_goroutine hdr) = fst (Atoi num) \<and> First (header_goroutine hdr) \<and>
            State (Sig (header_goroutine hdr)) = hd (Split_comma_space bd)) \<and>
         ((f, fl) \<in> set pairs \<and> reFunc (line_body p f) = Some (name, args) \<and>
          reFile (line_body p fl) = Some (path, lnum) \<longrightarrow>
            Raw (Call_Func (call_of p (f, fl))) = name \<and> SrcPath (call_of p (f, fl)) = path \<and>
            Line (call_of p (f, fl)) = fst (Atoi lnum)) \<and>
         (created = Some (c, cfl) \<and> reCreated (line_body p c) = Some r \<and>
          reFile (line_body p cfl) = Some (cpath, cnum) \<longrightarrow>
            created_of p created =
              zero_Call\<lparr>Call_Func := \<lparr>Raw = r\<rparr>, SrcPath := cpath, Line := fst (Atoi cnum)\<rparr>)"
proof -
  let ?g0 = "header_goroutine hdr"
  let ?pl = "concat (map (\<lambda>(f, fl). [f, fl]) pairs)"
  let ?cl = "case created of None \<Rightarrow> [] | Some (c, fl) \<Rightarrow> [c, fl]"
  from assms have hl: "header_line p hdr" and ne: "pairs \<noteq> []"
    and pl: "list_all (\<lambda>(f, fl). function_line p f \<and> file_line p fl) pairs"
    and cl: "case created of None \<Rightarrow> True | Some (c, fl) \<Rightarrow> created_line p c \<and> file_line p fl"
    and el: "empty_line e"
    by (simp_all add: well_formed_block_def)
  have g0: "Stack ?g0 = zero_Stack" "CreatedBy ?g0 = zero_Call"
    by (auto simp: header_goroutine_def new_goroutine_def Let_def split: option.splits prod.splits)
  \<comment> \<open>the tokens are the lines\<close>
  have tl: "list_all text_line (block_lines hdr pairs created e)"
    using hl pl cl el
    by (auto simp: block_lines_def list_all_iff header_line_def function_line_def file_line_def
        created_line_def empty_line_def indented_line_def split: option.splits)
  have toks: "scanner_run (concat (block_lines hdr pairs created e)) =
                (block_lines hdr pairs created e, None)"
    using tl by (rule scanner_run_text_lines)
  \<comment> \<open>the header, then the pairs\<close>
  from header_step[OF hl] obtain s1 where
    1: "scan initial_state hdr = Some ([], None, s1)"
    and b1: "in_block p gotRoutineHeader ([] @ [?g0]) s1" by blast
  from pairs_steps[OF pl ne b1, of "?cl @ [e]" "[]"] obtain s2 where
    2: "parseDump_loop s1 (?pl @ ?cl @ [e]) [] = parseDump_loop s2 (?cl @ [e]) []"
    and b2: "in_block p gotFileFunc
               ([] @ [?g0\<lparr>Stack := (Stack ?g0)\<lparr>Calls := Calls (Stack ?g0) @ map (call_of p) pairs\<rparr>\<rparr>]) s2"
    by blast
  let ?g2 = "?g0\<lparr>Stack := \<lparr>Calls = map (call_of p) pairs, Stack_Elided = False\<rparr>\<rparr>"
  have b2': "in_block p gotFileFunc ([] @ [?g2]) s2"
    using b2 g0 by (simp add: zero_Stack_def)
  \<comment> \<open>the creation lines, if any, then the empty line\<close>
  have 3: "\<exists>s3. parseDump_loop s2 (?cl @ [e]) [] = Some ([], None, s3) \<and>
             goroutines s3 = [?g2\<lparr>CreatedBy := created_of p created\<rparr>]"
  proof (cases created)
    case None
    have "scan s2 e = Some ([], None, s2\<lparr>state := betweenRoutine\<rparr>)"
      using b2' el by (intro empty_step) (simp_all add: in_block_def)
    then show ?thesis using None b2' g0 by (simp add: in_block_def created_of_def)
  next
    case (Some cr)
    obtain c fl where cr: "cr = (c, fl)" by (cases cr)
    have cf: "created_line p c" "file_line p fl" using cl Some cr by simp_all
    from created_steps[OF b2' _ cf, of "[e]" "[]"] g0 obtain s3 where
      a: "parseDump_loop s2 (c # fl # [e]) [] = parseDump_loop s3 [e] []"
      and b3: "in_block p gotFileCreated ([] @ [?g2\<lparr>CreatedBy := created_of p (Some (c, fl))\<rparr>]) s3"
      by auto
    have "scan s3 e = Some ([], None, s3\<lparr>state := betweenRoutine\<rparr>)"
      using b3 el by (intro empty_step) (simp_all add: in_block_def)
    then show ?thesis using a b3 Some cr by (simp add: in_block_def)
  qed
  then obtain s3 where 3: "parseDump_loop s2 (?cl @ [e]) [] = Some ([], None, s3)"
    and g3: "goroutines s3 = [?g2\<lparr>CreatedBy := created_of p created\<rparr>]" by blast
  have "parseDump_loop initial_state (block_lines hdr pairs created e) [] = Some ([], None, s3)"
    using 1 2 3 by (simp add: block_lines_def)
  then have pd: "parseDump (concat (block_lines hdr pairs created e)) rerr =
           Some ([], [?g2\<lparr>CreatedBy := created_of p created\<rparr>], map_option StreamError rerr)"
    using toks g3 by (simp add: parseDump_def)
  have pop: "created_of p created \<noteq> zero_Call \<longleftrightarrow> created \<noteq> None"
  proof (cases created)
    case None
    then show ?thesis by (simp add: created_of_def)
  next
    case (Some cr)
    obtain c fl where cr: "cr = (c, fl)" by (cases cr)
    then show ?thesis using cl Some created_of_populated[of p c fl] by simp
  qed
  have hd: "reRoutineHeader (chomp hdr) = Some (ind, num, bd) \<longrightarrow>
            ID ?g0 = fst (Atoi num) \<and> First ?g0 \<and> State (Sig ?g0) = hd (Split_comma_space bd)"
    by (simp add: header_goroutine_def new_goroutine_def initial_state_def Let_def split: prod.splits)
  have cs: "(f, fl) \<in> set pairs \<and> reFunc (line_body p f) = Some (name, args) \<and>
          reFile (line_body p fl) = Some (path, lnum) \<longrightarrow>
            Raw (Call_Func (call_of p (f, fl))) = name \<and> SrcPath (call_of p (f, fl)) = path \<and>
            Line (call_of p (f, fl)) = fst (Atoi lnum)"
  proof
    assume a: "(f, fl) \<in> set pairs \<and> reFunc (line_body p f) = Some (name, args) \<and>
          reFile (line_body p fl) = Some (path, lnum)"
    have "function_line p f" "file_line p fl" using pl a by (auto simp: list_all_iff)
    then show "Raw (Call_Func (call_of p (f, fl))) = name \<and> SrcPath (call_of p (f, fl)) = path \<and>
            Line (call_of p (f, fl)) = fst (Atoi lnum)"
      using a by (intro call_of_fields) blast+
  qed
  have cr: "created = Some (c, cfl) \<and> reCreated (line_body p c) = Some r \<and>
          reFile (line_body p cfl) = Some (cpath, cnum) \<longrightarrow>
            created_of p created =
              zero_Call\<lparr>Call_Func := \<lparr>Raw = r\<rparr>, SrcPath := cpath, Line := fst (Atoi cnum)\<rparr>"
  proof
    assume a: "created = Some (c, cfl) \<and> reCreated (line_body p c) = Some r \<and>
          reFile (line_body p cfl) = Some (cpath, cnum)"
    have "file_line p cfl" using cl a by simp
    then show "created_of p created =
              zero_Call\<lparr>Call_Func := \<lparr>Raw = r\<rparr>, SrcPath := cpath, Line := fst (Atoi cnum)\<rparr>"
      using a created_of_fields[of p cfl c r cpath cnum] by simp
  qed
  have len: "length (map (call_of p) pairs) = length pairs" by simp
  from pd len pop hd cs cr show ?thesis by blast
qed

lemma text_line_eol:
  "HasSuffix l [NL] \<and> NL \<notin> set (butlast l) \<Longrightarrow> length l \<le> 65536 \<Longrightarrow> text_line l"
  by (simp add: text_line_def MaxScanTokenSize_def)

lemma sample_text_lines:
  "text_line sample_header \<and> list_all (\<lambda>(f, fl). text_line f \<and> text_line fl) sample_pairs \<and>
   text_line (''  created by main.h'' @ [NL]) \<and> text_line (''  '' @ TAB # ''/a/d.go:14'' @ [NL]) \<and>
   text_line [NL]"
proof -
  have 1: "text_line sample_header"
    by (rule text_line_eol) (code_simp, simp add: sample_header_def)
  have 2: "text_line (''  main.f(1, 2, ...)'' @ [NL])" by (rule text_line_eol) (code_simp, simp)
  have 3: "text_line (''  '' @ TAB # ''/a/b.go:12 +0x1'' @ [NL])" by (rule text_line_eol) (code_simp, simp)
  have 4: "text_line (''  main.g()'' @ [NL])" by (rule text_line_eol) (code_simp, simp)
  have 5: "text_line (''  '' @ TAB # ''/a/c.go:13'' @ [NL])" by (rule text_line_eol) (code_simp, simp)
  have 6: "text_line (''  created by main.h'' @ [NL])" by (rule text_line_eol) (code_simp, simp)
  have 7: "text_line (''  '' @ TAB # ''/a/d.go:14'' @ [NL])" by (rule text_line_eol) (code_simp, simp)
  have 8: "text_line [NL]" by (rule text_line_eol) (code_simp, simp)
  have "list_all (\<lambda>(f, fl). text_line f \<and> text_line fl) sample_pairs"
    unfolding sample_pairs_def using 2 3 4 5 by simp
  then show ?thesis using 1 6 7 8 by blast
qed

theorem well_formed_block_parsed_witness:
  "well_formed_block ''  '' sample_header sample_pairs sample_created [NL] \<and>
   parseDump (concat (block_lines sample_header sample_pairs sample_created [NL])) None =
     Some ([], [sample_goroutine], None) \<and>
   length (Calls (Stack sample_goroutine)) = length sample_pairs \<and>
   CreatedBy sample_goroutine \<noteq> zero_Call"
proof -
  have t: "text_line sample_header" "text_line (''  main.f(1, 2, ...)'' @ [NL])"
    "text_line (''  '' @ TAB # ''/a/b.go:12 +0x1'' @ [NL])" "text_line (''  main.g()'' @ [NL])"
    "text_line (''  '' @ TAB # ''/a/c.go:13'' @ [NL])" "text_line (''  created by main.h'' @ [NL])"
    "text_line (''  '' @ TAB # ''/a/d.go:14'' @ [NL])" "text_line [NL]"
    using sample_text_lines by (simp_all add: sample_pairs_def)
  have h: "case reRoutineHeader (chomp sample_header) of None \<Rightarrow> False
           | Some (ind, num, bd) \<Rightarrow> ind = ''  '' \<and> \<not> snd (Atoi num)" by code_simp
  have f1: "HasPrefix (chomp (''  main.f(1, 2, ...)'' @ [NL])) ''  '' \<and>
      (case parseFunc zero_Call (line_body ''  '' (''  main.f(1, 2, ...)'' @ [NL])) of
         (found, err, c) \<Rightarrow> found \<and> err = None) \<and>
      \<not> reUnavail (line_body ''  '' (''  main.f(1, 2, ...)'' @ [NL])) \<and>
      reCreated (line_body ''  '' (''  main.f(1, 2, ...)'' @ [NL])) = None" by code_simp
  have f2: "HasPrefix (chomp (''  main.g()'' @ [NL])) ''  '' \<and>
      (case parseFunc zero_Call (line_body ''  '' (''  main.g()'' @ [NL])) of
         (found, err, c) \<Rightarrow> found \<and> err = None) \<and>
      \<not> reUnavail (line_body ''  '' (''  main.g()'' @ [NL])) \<and>
      reCreated (line_body ''  '' (''  main.g()'' @ [NL])) = None" by code_simp
  have l1: "HasPrefix (chomp (''  '' @ TAB # ''/a/b.go:12 +0x1'' @ [NL])) ''  '' \<and>
      (case parseFile zero_Call (line_body ''  '' (''  '' @ TAB # ''/a/b.go:12 +0x1'' @ [NL])) of
         (found, err, c) \<Rightarrow> found \<and> err = None)" by code_simp
  have l2: "HasPrefix (chomp (''  '' @ TAB # ''/a/c.go:13'' @ [NL])) ''  '' \<and>
      (case parseFile zero_Call (line_body ''  '' (''  '' @ TAB # ''/a/c.go:13'' @ [NL])) of
         (found, err, c) \<Rightarrow> found \<and> err = None)" by code_simp
  have l3: "HasPrefix (chomp (''  '' @ TAB # ''/a/d.go:14'' @ [NL])) ''  '' \<and>
      (case parseFile zero_Call (line_body ''  '' (''  '' @ TAB # ''/a/d.go:14'' @ [NL])) of
         (found, err, c) \<Rightarrow> found \<and> err = None)" by code_simp
  have c1: "HasPrefix (chomp (''  created by main.h'' @ [NL])) ''  '' \<and>
      reCreated (line_body ''  '' (''  created by main.h'' @ [NL])) \<noteq> None" by code_simp
  have e1: "chomp [NL] = []" by code_simp
  have wf: "well_formed_block ''  '' sample_header sample_pairs sample_created [NL]"
    unfolding well_formed_block_def header_line_def function_line_def file_line_def created_line_def
      empty_line_def indented_line_def sample_pairs_def sample_created_def
    using t h f1 f2 l1 l2 l3 c1 e1 by simp
  have g: "(header_goroutine sample_header)
                    \<lparr>Stack := \<lparr>Calls = map (call_of ''  '') sample_pairs, Stack_Elided = False\<rparr>,
                     CreatedBy := created_of ''  '' sample_created\<rparr> = sample_goroutine"
    by code_simp
  have l: "length (Calls (Stack sample_goroutine)) = length sample_pairs"
    by (simp add: sample_goroutine_def sample_pairs_def)
  have c: "CreatedBy sample_goroutine \<noteq> zero_Call"
    by (simp add: sample_goroutine_def call_at_def zero_Call_def)
  from well_formed_block_parsed[OF wf, of None] g l c wf show ?thesis by simp
qed


end
